theory Spec2Isabelle
  imports Main "HOL-Library.Product_Lexorder"
begin

unbundle bit_operations_syntax

section \<open>Values, strings and errors\<close>

text \<open>
  The program is \<^verbatim>\<open>ipinfo_lite.py\<close>. Python strings are modelled as \<open>string\<close>, read as
  sequences of code points below 256 (Latin-1). Values of a database record are
  dynamically typed; \<open>pyval\<close> lists the shapes a decoded record can hold (floats are
  left out).
\<close>

datatype pyval =
    PNone
  | PBool bool
  | PInt int
  | PStr string
  | PBytes string
  | PList "pyval list"
  | PDict "(pyval \<times> pyval) list"

datatype error =
    TypeError
  | AttributeError
  | ValueError
  | OSError string

text \<open>Truth value of an object, as \<^verbatim>\<open>if obj:\<close> tests it.\<close>

fun truthy :: "pyval \<Rightarrow> bool" where
  "truthy PNone = False"
| "truthy (PBool b) = b"
| "truthy (PInt n) = (n \<noteq> 0)"
| "truthy (PStr s) = (s \<noteq> [])"
| "truthy (PBytes s) = (s \<noteq> [])"
| "truthy (PList xs) = (xs \<noteq> [])"
| "truthy (PDict kvs) = (kvs \<noteq> [])"

text \<open>
  \<^verbatim>\<open>str.lower()\<close> on code points below 256: the ASCII capitals and the Latin-1
  capitals 192..222 (without the multiplication sign 215) move up by 32.
\<close>

definition lower_char :: "char \<Rightarrow> char" where
  "lower_char c =
     (let n = (of_char c :: nat)
      in if (65 \<le> n \<and> n \<le> 90) \<or> (192 \<le> n \<and> n \<le> 222 \<and> n \<noteq> 215)
         then char_of (n + 32) else c)"

definition lower :: "string \<Rightarrow> string" where
  "lower s = map lower_char s"

section \<open>The AS-domain rule table\<close>

record AsDomain =
  domain :: string
  is_filter :: bool
  use_as_name :: bool

text \<open>The dataclass defaults: \<^verbatim>\<open>is_filter = True\<close>, \<^verbatim>\<open>use_as_name = False\<close>.\<close>

definition AsDomain_default :: "string \<Rightarrow> AsDomain" where
  "AsDomain_default d = \<lparr>domain = d, is_filter = True, use_as_name = False\<rparr>"

definition AsDomain_by_name :: "string \<Rightarrow> AsDomain" where
  "AsDomain_by_name d = \<lparr>domain = d, is_filter = True, use_as_name = True\<rparr>"

definition AS_DOMAINS :: "AsDomain list" where
  "AS_DOMAINS =
    [AsDomain_default ''10086.cn'',
     AsDomain_default ''chinamobile.com'',
     AsDomain_default ''chinaunicom.cn'',
     AsDomain_default ''189.cn'',
     AsDomain_by_name ''chinatelecom.cn'',
     AsDomain_by_name ''chinatelecom.com.cn'',
     AsDomain_default ''360.cn'',
     AsDomain_default ''360.net'',
     AsDomain_default ''baidu.com'',
     AsDomain_default ''qq.com'',
     AsDomain_default ''tencent.com'',
     AsDomain_default ''huawei.com'',
     AsDomain_default ''huaweicloud.com'',
     AsDomain_default ''alibabacloud.com'',
     AsDomain_default ''alibabagroup.com'',
     AsDomain_default ''bytedance.com'',
     AsDomain_default ''volcengine.com'']"

text \<open>
  \<^verbatim>\<open>AS_DOMAIN_KV = {v.domain: v for v in AS_DOMAINS}\<close>: a later entry replaces an
  earlier one with the same domain, so the list is searched from its end.
\<close>

definition AS_DOMAIN_KV :: "string \<rightharpoonup> AsDomain" where
  "AS_DOMAIN_KV = map_of (rev (map (\<lambda>v. (domain v, v)) AS_DOMAINS))"

text \<open>
  \<^verbatim>\<open>AS_DOMAIN_KV.get(key)\<close> for an arbitrary object: a list or a dict is unhashable
  (TypeError); any other object that is not a string equals no key of the table.
\<close>

fun kv_get :: "(string \<rightharpoonup> 'a) \<Rightarrow> pyval \<Rightarrow> error + 'a option" where
  "kv_get m (PStr s) = Inr (m s)"
| "kv_get m (PList xs) = Inl TypeError"
| "kv_get m (PDict kvs) = Inl TypeError"
| "kv_get m v = Inr None"

section \<open>The AS-name pattern\<close>

definition AS_NAME_KEYWORDS :: "string list" where
  "AS_NAME_KEYWORDS =
    [''Beijing'', ''Tianjin'', ''Hebei'', ''Jiangsu'', ''Nanjing'', ''Sichuan'',
     ''SHAANXI'', ''Xiamen'', ''Shandong'', ''Qingdao'', ''Jinan'', ''Guizhou'',
     ''Guangdong'', ''NINGXIA'', ''Yunnan'', ''Cloud Computing Corporation'']"

definition bslash :: char where
  "bslash = CHR 0x5C"

text \<open>
  \<^verbatim>\<open>re.escape\<close>: the characters \<^verbatim>\<open>()[]{}?*+-|^$\.&~#\<close>, space, tab, newline, carriage
  return, vertical tab and form feed get a backslash in front.
\<close>

definition re_special :: "char list" where
  "re_special =
     ''()[]{}?*+-|^$.&~# '' @ [bslash, CHR 0x09, CHR 0x0A, CHR 0x0D, CHR 0x0B, CHR 0x0C]"

definition re_escape :: "string \<Rightarrow> string" where
  "re_escape s = concat (map (\<lambda>c. if c \<in> set re_special then [bslash, c] else [c]) s)"

text \<open>\<^verbatim>\<open>sep.join(xs)\<close>.\<close>

fun join :: "string \<Rightarrow> string list \<Rightarrow> string" where
  "join sep [] = []"
| "join sep [x] = x"
| "join sep (x # y # ys) = x @ sep @ join sep (y # ys)"

text \<open>
  The pattern text handed to \<^verbatim>\<open>re.compile\<close>:
  \<^verbatim>\<open>rf"\b{'|'.join(re.escape(x) for x in AS_NAME_KEYWORDS)}\b"\<close>.
\<close>

definition AS_NAME_PATTERN :: string where
  "AS_NAME_PATTERN =
     [bslash, CHR ''b''] @ join ''|'' (map re_escape AS_NAME_KEYWORDS) @ [bslash, CHR ''b'']"

text \<open>
  The fragment of the regular-expression syntax that the pattern text uses: literal
  characters, escaped special characters, the word-boundary assertion \<^verbatim>\<open>\b\<close> and the
  alternation bar. A bar at top level separates the branches, and each branch is a
  sequence of atoms: alternation binds weaker than sequencing. Anything else is not
  parsed (\<open>None\<close>).
\<close>

datatype atom = Boundary | Lit char

type_synonym regex = "atom list list"

fun cons_atom :: "atom \<Rightarrow> regex \<Rightarrow> regex" where
  "cons_atom a [] = [[a]]"
| "cons_atom a (b # bs) = (a # b) # bs"

fun re_parse :: "string \<Rightarrow> regex option" where
  "re_parse [] = Some [[]]"
| "re_parse [c] =
     (if c = CHR ''|'' then Some [[], []]
      else if c \<in> set re_special then None
      else Some [[Lit c]])"
| "re_parse (c # d # ds) =
     (if c = bslash then
        (if d = CHR ''b'' then map_option (cons_atom Boundary) (re_parse ds)
         else if d \<in> set re_special then map_option (cons_atom (Lit d)) (re_parse ds)
         else None)
      else if c = CHR ''|'' then map_option (\<lambda>bs. [] # bs) (re_parse (d # ds))
      else if c \<in> set re_special then None
      else map_option (cons_atom (Lit c)) (re_parse (d # ds)))"

text \<open>
  Word characters (\<^verbatim>\<open>\w\<close> of a string pattern) below 256: ASCII letters, digits and the
  underscore, and the Latin-1 letters and digits.
\<close>

definition is_word_char :: "char \<Rightarrow> bool" where
  "is_word_char c =
     (let n = (of_char c :: nat)
      in (48 \<le> n \<and> n \<le> 57) \<or> (65 \<le> n \<and> n \<le> 90) \<or> n = 95 \<or> (97 \<le> n \<and> n \<le> 122)
         \<or> n \<in> {170, 178, 179, 181, 185, 186, 188, 189, 190}
         \<or> (192 \<le> n \<and> n \<le> 214) \<or> (216 \<le> n \<and> n \<le> 246) \<or> (248 \<le> n \<and> n \<le> 255))"

text \<open>
  A position in the searched string is the character before it (if any) and the rest of
  the string from it on. \<^verbatim>\<open>\b\<close> holds at a position when exactly one of the characters
  before and after it is a word character (outside the string counts as none).
\<close>

definition at_boundary :: "char option \<Rightarrow> string \<Rightarrow> bool" where
  "at_boundary prev rest =
     ((case prev of None \<Rightarrow> False | Some c \<Rightarrow> is_word_char c)
        \<noteq> (case rest of [] \<Rightarrow> False | c # cs \<Rightarrow> is_word_char c))"

text \<open>Matching one branch at a position, ignoring case (\<^verbatim>\<open>re.I\<close>).\<close>

fun match_atoms :: "atom list \<Rightarrow> char option \<Rightarrow> string \<Rightarrow> bool" where
  "match_atoms [] prev rest = True"
| "match_atoms (Boundary # as) prev rest =
     (if at_boundary prev rest then match_atoms as prev rest else False)"
| "match_atoms (Lit c # as) prev [] = False"
| "match_atoms (Lit c # as) prev (x # xs) =
     (if lower_char x = lower_char c then match_atoms as (Some x) xs else False)"

text \<open>
  \<^verbatim>\<open>pattern.search(s)\<close>: some branch matches at some position of \<open>s\<close>, the end of the
  string included.
\<close>

fun search_from :: "regex \<Rightarrow> char option \<Rightarrow> string \<Rightarrow> bool" where
  "search_from r prev [] = list_ex (\<lambda>b. match_atoms b prev []) r"
| "search_from r prev (x # xs) =
     (if list_ex (\<lambda>b. match_atoms b prev (x # xs)) r then True
      else search_from r (Some x) xs)"

definition re_search :: "regex \<Rightarrow> string \<Rightarrow> bool" where
  "re_search r s = search_from r None s"

definition REGEX_AS_NAME :: regex where
  "REGEX_AS_NAME = (case re_parse AS_NAME_PATTERN of Some r \<Rightarrow> r | None \<Rightarrow> [])"

text \<open>\<^verbatim>\<open>REGEX_AS_NAME.search(obj)\<close>: only a string can be searched.\<close>

fun regex_search :: "regex \<Rightarrow> pyval \<Rightarrow> error + bool" where
  "regex_search r (PStr s) = Inr (re_search r s)"
| "regex_search r v = Inl TypeError"

section \<open>The record classifier\<close>

record IPInfo =
  continent :: pyval
  continent_code :: pyval
  country :: pyval
  country_code :: pyval
  as_domain :: pyval
  as_name :: pyval
  asn :: pyval

text \<open>
  \<^verbatim>\<open>IPInfo.from_dict\<close>: \<^verbatim>\<open>data.items()\<close> exists on a dict only; the recognised keys
  set their fields and every other field keeps its default, the empty string.
\<close>

definition field :: "(pyval \<times> pyval) list \<Rightarrow> string \<Rightarrow> pyval" where
  "field kvs name = (case map_of kvs (PStr name) of Some v \<Rightarrow> v | None \<Rightarrow> PStr [])"

fun from_dict :: "pyval \<Rightarrow> error + IPInfo" where
  "from_dict (PDict kvs) =
     Inr \<lparr>continent = field kvs ''continent'',
          continent_code = field kvs ''continent_code'',
          country = field kvs ''country'',
          country_code = field kvs ''country_code'',
          as_domain = field kvs ''as_domain'',
          as_name = field kvs ''as_name'',
          asn = field kvs ''asn''\<rparr>"
| "from_dict v = Inl AttributeError"

definition is_cn :: "IPInfo \<Rightarrow> bool" where
  "is_cn ip = (country_code ip = PStr ''CN'')"

definition is_filter_domain :: "IPInfo \<Rightarrow> error + bool" where
  "is_filter_domain ip =
     (if truthy (as_domain ip) then
        (case kv_get AS_DOMAIN_KV (as_domain ip) of
           Inl e \<Rightarrow> Inl e
         | Inr None \<Rightarrow> Inr False
         | Inr (Some obj) \<Rightarrow>
             if is_filter obj then
               (if use_as_name obj then
                  (case regex_search REGEX_AS_NAME (as_name ip) of
                     Inl e \<Rightarrow> Inl e
                   | Inr m \<Rightarrow> Inr m)
                else Inr True)
             else Inr False)
      else Inr False)"

definition IPInfo_default :: IPInfo where
  "IPInfo_default =
     \<lparr>continent = PStr [], continent_code = PStr [], country = PStr [],
      country_code = PStr [], as_domain = PStr [], as_name = PStr [], asn = PStr []\<rparr>"

text \<open>
  The membership test as the specification words it, for a record whose AS domain is
  the string \<open>d\<close> and whose AS name is the string \<open>n\<close>: the rule is looked up under the
  lowercase form of the domain.
\<close>

definition spec_is_filtered_domain :: "string \<Rightarrow> string \<Rightarrow> bool" where
  "spec_is_filtered_domain d n =
     (d \<noteq> [] \<and>
      (case AS_DOMAIN_KV (lower d) of
         None \<Rightarrow> False
       | Some rule \<Rightarrow> is_filter rule \<and> (\<not> use_as_name rule \<or> re_search REGEX_AS_NAME n)))"

section \<open>IP networks\<close>

text \<open>
  The objects of the standard \<^verbatim>\<open>ipaddress\<close> module: a network is its address family,
  its base address as an integer and its prefix length. The attributes below are the
  ones \<^verbatim>\<open>collapse_addresses\<close> reads, written arithmetically: the host mask is
  \<open>2 ^ (max_prefixlen - prefixlen) - 1\<close>, and since a network has no host bit set, the
  broadcast address (\<^verbatim>\<open>network_address | hostmask\<close>) is the sum of the two.
\<close>

datatype ipver = IPv4 | IPv6

record ipnet =
  version :: ipver
  network_address :: nat
  prefixlen :: nat

fun max_prefixlen :: "ipver \<Rightarrow> nat" where
  "max_prefixlen IPv4 = 32"
| "max_prefixlen IPv6 = 128"

definition ALL_ONES :: "ipver \<Rightarrow> nat" where
  "ALL_ONES v = 2 ^ max_prefixlen v - 1"

definition host_bits :: "ipnet \<Rightarrow> nat" where
  "host_bits n = max_prefixlen (version n) - prefixlen n"

definition hostmask :: "ipnet \<Rightarrow> nat" where
  "hostmask n = 2 ^ host_bits n - 1"

definition netmask :: "ipnet \<Rightarrow> nat" where
  "netmask n = ALL_ONES (version n) - hostmask n"

definition broadcast_address :: "ipnet \<Rightarrow> nat" where
  "broadcast_address n = network_address n + hostmask n"

text \<open>
  What the network constructors accept (\<^verbatim>\<open>strict=True\<close>): a prefix length within the
  family's width, an address within its range, and no host bit set.
\<close>

definition valid_net :: "ipnet \<Rightarrow> bool" where
  "valid_net n =
     (prefixlen n \<le> max_prefixlen (version n)
      \<and> network_address n \<le> ALL_ONES (version n)
      \<and> 2 ^ host_bits n dvd network_address n)"

text \<open>The addresses a network covers.\<close>

definition net_addrs :: "ipnet \<Rightarrow> nat set" where
  "net_addrs n = {network_address n .. broadcast_address n}"

text \<open>
  \<^verbatim>\<open>net.supernet()\<close>: the network of the next shorter prefix that contains \<open>n\<close>; the
  network of prefix length 0 is its own supernet. Masking the address with the netmask
  shifted left by one clears the lowest bit of the old network part.
\<close>

definition supernet :: "ipnet \<Rightarrow> ipnet" where
  "supernet n =
     (if prefixlen n = 0 then n
      else n\<lparr>network_address :=
                network_address n - network_address n mod 2 ^ (host_bits n + 1),
             prefixlen := prefixlen n - 1\<rparr>)"

text \<open>
  Networks of one family are ordered by base address, then by netmask
  (\<^verbatim>\<open>_BaseNetwork.__lt__\<close>); \<^verbatim>\<open>sorted\<close> is a stable sort by that key.
\<close>

definition net_key :: "ipnet \<Rightarrow> nat \<times> nat" where
  "net_key n = (network_address n, netmask n)"

section \<open>The range collapser\<close>

text \<open>
  \<^verbatim>\<open>ipaddress.collapse_addresses\<close> of the standard library, after CPython's
  \<^verbatim>\<open>Lib/ipaddress.py\<close>. \<^verbatim>\<open>int.bit_length()\<close>:
\<close>

fun bit_length :: "nat \<Rightarrow> nat" where
  "bit_length n = (if n = 0 then 0 else Suc (bit_length (n div 2)))"

declare bit_length.simps [simp del]

text \<open>
  \<^verbatim>\<open>_count_righthand_zero_bits(number, bits)\<close>:
  \<^verbatim>\<open>min(bits, (~number & (number - 1)).bit_length())\<close>, and \<open>bits\<close> for the number 0.
\<close>

definition count_righthand_zero_bits :: "nat \<Rightarrow> nat \<Rightarrow> nat" where
  "count_righthand_zero_bits number bits =
     (if number = 0 then bits
      else min bits (bit_length (nat (NOT (int number) AND (int number - 1)))))"

text \<open>
  \<^verbatim>\<open>summarize_address_range(first, last)\<close>: the loop cuts the largest aligned block
  that starts at \<open>first_int\<close> and fits into the range, and goes on behind it.
\<close>

function summarize_address_range :: "ipver \<Rightarrow> nat \<Rightarrow> nat \<Rightarrow> ipnet list" where
  "summarize_address_range v first_int last_int =
     (if first_int \<le> last_int then
        (let nbits = min (count_righthand_zero_bits first_int (max_prefixlen v))
                         (bit_length (last_int - first_int + 1) - 1);
             net = \<lparr>version = v, network_address = first_int,
                    prefixlen = max_prefixlen v - nbits\<rparr>
         in net # (if first_int + 2 ^ nbits - 1 = ALL_ONES v then []
                   else summarize_address_range v (first_int + 2 ^ nbits) last_int))
      else [])"
  by pat_completeness auto
termination
proof (relation "measure (\<lambda>(v, first_int, last_int). Suc last_int - first_int)")
  show "wf (measure (\<lambda>(v, first_int, last_int). Suc last_int - first_int))"
    by simp
next
  fix v :: ipver and first_int last_int nbits :: nat
  assume le: "first_int \<le> last_int"
  define k where "k = (2::nat) ^ nbits"
  have "0 < k" by (simp add: k_def)
  with le have "Suc last_int - (first_int + k) < Suc last_int - first_int"
    by arith
  then show "((v, first_int + 2 ^ nbits, last_int), (v, first_int, last_int))
      \<in> measure (\<lambda>(v, first_int, last_int). Suc last_int - first_int)"
    unfolding k_def by simp
qed

declare summarize_address_range.simps [simp del]

text \<open>
  \<^verbatim>\<open>_find_address_range\<close> over the sorted, deduplicated addresses: the runs of
  consecutive integers, each as its first and last address. The two leading arguments
  are the generator's variables \<^verbatim>\<open>first\<close> and \<^verbatim>\<open>last\<close>.
\<close>

fun find_address_range :: "nat \<Rightarrow> nat \<Rightarrow> nat list \<Rightarrow> (nat \<times> nat) list" where
  "find_address_range first last_ip [] = [(first, last_ip)]"
| "find_address_range first last_ip (ip # it) =
     (if ip \<noteq> last_ip + 1 then (first, last_ip) # find_address_range ip ip it
      else find_address_range first ip it)"

text \<open>
  The first loop of \<^verbatim>\<open>collapse_addresses\<close>: a network of full prefix length goes to
  \<open>ips\<close> as its address, any other one to \<open>nets\<close>; each list refuses an element of
  another family than its last one (TypeError). The input holds network objects only.
\<close>

fun split_loop ::
  "ipnet list \<Rightarrow> (ipver \<times> nat) list \<Rightarrow> ipnet list \<Rightarrow> error + ((ipver \<times> nat) list \<times> ipnet list)" where
  "split_loop [] ips nets = Inr (ips, nets)"
| "split_loop (ip # rest) ips nets =
     (if prefixlen ip = max_prefixlen (version ip) then
        (if ips \<noteq> [] \<and> fst (last ips) \<noteq> version ip then Inl TypeError
         else split_loop rest (ips @ [(version ip, network_address ip)]) nets)
      else
        (if nets \<noteq> [] \<and> version (last nets) \<noteq> version ip then Inl TypeError
         else split_loop rest ips (nets @ [ip])))"

text \<open>
  The summarised address runs: \<^verbatim>\<open>ips = sorted(set(ips))\<close>, then every run of
  \<^verbatim>\<open>_find_address_range(ips)\<close> through \<^verbatim>\<open>summarize_address_range\<close>.
\<close>

definition summarize_ips :: "(ipver \<times> nat) list \<Rightarrow> ipnet list" where
  "summarize_ips ips =
     (case sort (remdups (map snd ips)) of
        [] \<Rightarrow> []
      | x # xs \<Rightarrow>
          concat (map (\<lambda>(first, last_ip). summarize_address_range (fst (hd ips)) first last_ip)
                      (find_address_range x x xs)))"

text \<open>
  The dictionary \<^verbatim>\<open>subnets\<close> of \<^verbatim>\<open>_collapse_addresses_internal\<close> is a list of
  (key, value) pairs in insertion order.
\<close>

definition dict_del :: "('k \<times> 'v) list \<Rightarrow> 'k \<Rightarrow> ('k \<times> 'v) list" where
  "dict_del d k = filter (\<lambda>kv. fst kv \<noteq> k) d"

text \<open>
  The merge loop. \<open>to_merge\<close> is the stack with its top (the end of the Python list) in
  front: a network whose supernet's slot is free takes the slot; one that meets another
  network there is merged with it into the supernet, which goes back on the stack; one
  that meets itself is dropped.
\<close>

function merge_loop :: "ipnet list \<Rightarrow> (ipnet \<times> ipnet) list \<Rightarrow> (ipnet \<times> ipnet) list" where
  "merge_loop [] subnets = subnets"
| "merge_loop (net # to_merge) subnets =
     (case map_of subnets (supernet net) of
        None \<Rightarrow> merge_loop to_merge (subnets @ [(supernet net, net)])
      | Some existing \<Rightarrow>
          if existing \<noteq> net
          then merge_loop (supernet net # to_merge) (dict_del subnets (supernet net))
          else merge_loop to_merge subnets)"
  by pat_completeness auto
termination
proof (relation "measure (\<lambda>(to_merge, subnets). 2 * length to_merge + length subnets)")
  show "wf (measure (\<lambda>(to_merge, subnets :: (ipnet \<times> ipnet) list).
      2 * length to_merge + length subnets))"
    by simp
next
  fix net :: ipnet and to_merge :: "ipnet list" and subnets :: "(ipnet \<times> ipnet) list"
  show "((to_merge, subnets @ [(supernet net, net)]), (net # to_merge, subnets))
      \<in> measure (\<lambda>(to_merge, subnets). 2 * length to_merge + length subnets)"
    by simp
next
  fix net existing :: ipnet and to_merge :: "ipnet list"
    and subnets :: "(ipnet \<times> ipnet) list"
  assume "map_of subnets (supernet net) = Some existing"
  then have "(supernet net, existing) \<in> set subnets"
    by (rule map_of_SomeD)
  then have "length (dict_del subnets (supernet net)) < length subnets"
    unfolding dict_del_def by (intro length_filter_less[where x = "(supernet net, existing)"]) auto
  then show "((supernet net # to_merge, dict_del subnets (supernet net)), (net # to_merge, subnets))
      \<in> measure (\<lambda>(to_merge, subnets). 2 * length to_merge + length subnets)"
    by simp
next
  fix net :: ipnet and to_merge :: "ipnet list" and subnets :: "(ipnet \<times> ipnet) list"
  show "((to_merge, subnets), (net # to_merge, subnets))
      \<in> measure (\<lambda>(to_merge, subnets). 2 * length to_merge + length subnets)"
    by simp
qed

declare merge_loop.simps [simp del]

text \<open>
  The second loop: walk the sorted values and skip every network that ends no later
  than the last one yielded.
\<close>

fun skip_subsumed :: "ipnet option \<Rightarrow> ipnet list \<Rightarrow> ipnet list" where
  "skip_subsumed last_net [] = []"
| "skip_subsumed None (net # nets) = net # skip_subsumed (Some net) nets"
| "skip_subsumed (Some l) (net # nets) =
     (if broadcast_address l \<ge> broadcast_address net then skip_subsumed (Some l) nets
      else net # skip_subsumed (Some net) nets)"

text \<open>\<^verbatim>\<open>sorted\<close> on networks: comparing two networks of different families raises.\<close>

definition sorted_nets :: "ipnet list \<Rightarrow> error + ipnet list" where
  "sorted_nets xs =
     (if \<exists>a \<in> set xs. \<exists>b \<in> set xs. version a \<noteq> version b then Inl TypeError
      else Inr (sort_key net_key xs))"

definition collapse_addresses_internal :: "ipnet list \<Rightarrow> error + ipnet list" where
  "collapse_addresses_internal addresses =
     (case sorted_nets (map snd (merge_loop (rev addresses) [])) of
        Inl e \<Rightarrow> Inl e
      | Inr vs \<Rightarrow> Inr (skip_subsumed None vs))"

definition collapse_addresses :: "ipnet list \<Rightarrow> error + ipnet list" where
  "collapse_addresses addresses =
     (case split_loop addresses [] [] of
        Inl e \<Rightarrow> Inl e
      | Inr (ips, nets) \<Rightarrow> collapse_addresses_internal (summarize_ips ips @ nets))"

text \<open>
  The call itself runs the first loop and the summarising and may raise there; what it
  returns is a generator, and the merge loop and the sort run only when the generator is
  first asked for an element, where they may raise in turn. The outer result is the
  call's, the inner one the iteration's; \<open>collapse_addresses\<close> above is the call
  followed by the full iteration.
\<close>

definition collapse_addresses_gen :: "ipnet list \<Rightarrow> error + (error + ipnet list)" where
  "collapse_addresses_gen addresses =
     (case split_loop addresses [] [] of
        Inl e \<Rightarrow> Inl e
      | Inr (ips, nets) \<Rightarrow> Inr (collapse_addresses_internal (summarize_ips ips @ nets)))"

section \<open>Text form of a network\<close>

text \<open>
  \<^verbatim>\<open>str(net)\<close> is \<^verbatim>\<open>address/prefixlen\<close>: dotted decimal for IPv4 and, for IPv6, the
  eight hexadecimal groups with the longest run of two or more zero groups replaced by
  \<^verbatim>\<open>::\<close> (the first such run when several are longest).
\<close>

definition digit_char :: "nat \<Rightarrow> char" where
  "digit_char d = ''0123456789abcdef'' ! d"

fun str_nat :: "nat \<Rightarrow> string" where
  "str_nat n = (if n < 10 then [digit_char n] else str_nat (n div 10) @ [digit_char (n mod 10)])"

declare str_nat.simps [simp del]

fun hex_nat :: "nat \<Rightarrow> string" where
  "hex_nat n = (if n < 16 then [digit_char n] else hex_nat (n div 16) @ [digit_char (n mod 16)])"

declare hex_nat.simps [simp del]

definition str_ipv4 :: "nat \<Rightarrow> string" where
  "str_ipv4 a =
     join ''.'' (map str_nat [a div 2 ^ 24 mod 256, a div 2 ^ 16 mod 256, a div 2 ^ 8 mod 256, a mod 256])"

text \<open>
  The loop of \<^verbatim>\<open>_compress_hextets\<close>; the state is \<^verbatim>\<open>best_doublecolon_start\<close>,
  \<^verbatim>\<open>best_doublecolon_len\<close>, \<^verbatim>\<open>doublecolon_start\<close> and \<^verbatim>\<open>doublecolon_len\<close>.
\<close>

fun compress_scan :: "string list \<Rightarrow> int \<Rightarrow> int \<times> int \<times> int \<times> int \<Rightarrow> int \<times> int" where
  "compress_scan [] index (bs, bl, ds, dl) = (bs, bl)"
| "compress_scan (hextet # hs) index (bs, bl, ds, dl) =
     (if hextet = ''0'' then
        (let dl' = dl + 1; ds' = (if ds = - 1 then index else ds)
         in if dl' > bl then compress_scan hs (index + 1) (ds', dl', ds', dl')
            else compress_scan hs (index + 1) (bs, bl, ds', dl'))
      else compress_scan hs (index + 1) (bs, bl, - 1, 0))"

definition compress_hextets :: "string list \<Rightarrow> string list" where
  "compress_hextets hextets =
     (case compress_scan hextets 0 (- 1, 0, - 1, 0) of
        (bs, bl) \<Rightarrow>
          if bl > 1 then
            (let be = bs + bl;
                 h1 = (if be = int (length hextets) then hextets @ [[]] else hextets);
                 h2 = take (nat bs) h1 @ [[]] @ drop (nat be) h1
             in if bs = 0 then [[]] @ h2 else h2)
          else hextets)"

definition str_ipv6 :: "nat \<Rightarrow> string" where
  "str_ipv6 a =
     join '':'' (compress_hextets (map (\<lambda>i. hex_nat (a div 2 ^ (16 * (7 - i)) mod 2 ^ 16)) [0..<8]))"

definition str_net :: "ipnet \<Rightarrow> string" where
  "str_net n =
     (case version n of IPv4 \<Rightarrow> str_ipv4 (network_address n) | IPv6 \<Rightarrow> str_ipv6 (network_address n))
       @ ''/'' @ str_nat (prefixlen n)"

section \<open>Grouping the records\<close>

text \<open>
  \<^verbatim>\<open>countries\<close> and \<^verbatim>\<open>domains\<close> are dictionaries (keys in insertion order) from a
  lowercase key to a dictionary from \<^verbatim>\<open>ipv4\<close>/\<^verbatim>\<open>ipv6\<close> to a set of networks. Both
  levels are \<^verbatim>\<open>defaultdict\<close>s, so a missing entry is created on first use. A set is kept
  as a list without repetitions; the order in which Python iterates it is not the
  list's order and is a parameter of the output phase.
\<close>

type_synonym groups = "(string \<times> (string \<times> ipnet list) list) list"

definition dict_set :: "('k \<times> 'v) list \<Rightarrow> 'k \<Rightarrow> 'v \<Rightarrow> ('k \<times> 'v) list" where
  "dict_set d k v =
     (if k \<in> fst ` set d then map (\<lambda>kv. if fst kv = k then (k, v) else kv) d
      else d @ [(k, v)])"

definition group_add :: "groups \<Rightarrow> string \<Rightarrow> string \<Rightarrow> ipnet \<Rightarrow> groups" where
  "group_add g key ipv net =
     (let inner = (case map_of g key of Some d \<Rightarrow> d | None \<Rightarrow> []);
          s = (case map_of inner ipv of Some s \<Rightarrow> s | None \<Rightarrow> [])
      in dict_set g key (dict_set inner ipv (List.insert net s)))"

text \<open>\<^verbatim>\<open>f"ipv{net.version}"\<close>.\<close>

definition ipv_name :: "ipnet \<Rightarrow> string" where
  "ipv_name net = (case version net of IPv4 \<Rightarrow> ''ipv4'' | IPv6 \<Rightarrow> ''ipv6'')"

text \<open>
  \<^verbatim>\<open>obj.lower()\<close> as the loop uses it. It is reached with a string only: the country
  code has just been found equal to \<^verbatim>\<open>"CN"\<close>, and the AS domain has just been found as
  a key of the rule table.
\<close>

fun str_lower :: "pyval \<Rightarrow> error + string" where
  "str_lower (PStr s) = Inr (lower s)"
| "str_lower v = Inl AttributeError"

record scan_state =
  countries :: groups
  domains :: groups

text \<open>
  One pass of the body of \<^verbatim>\<open>for network, record in reader\<close>, with the state after it
  and the exception that ended it, if any. The reader's key is parsed by
  \<^verbatim>\<open>ipaddress.ip_network\<close>, a parameter here: it returns a network or raises. The
  result of \<^verbatim>\<open>ip_network\<close> is always an IPv4 or IPv6 network, so the \<^verbatim>\<open>isinstance\<close>
  test never skips. What was inserted before an exception stays inserted. The record
  log \<^verbatim>\<open>db_logger\<close> is left out.
\<close>

definition observe ::
  "('k \<Rightarrow> error + ipnet) \<Rightarrow> scan_state \<Rightarrow> 'k \<times> pyval \<Rightarrow> scan_state \<times> error option" where
  "observe ip_network st kr =
     (case from_dict (snd kr) of
        Inl e \<Rightarrow> (st, Some e)
      | Inr ip \<Rightarrow>
          if is_cn ip then
            (case ip_network (fst kr) of
               Inl e \<Rightarrow> (st, Some e)
             | Inr net \<Rightarrow>
                 (case str_lower (country_code ip) of
                    Inl e \<Rightarrow> (st, Some e)
                  | Inr c \<Rightarrow>
                      (let ipv = ipv_name net;
                           st1 = st\<lparr>countries := group_add (countries st) c ipv net\<rparr>
                       in case is_filter_domain ip of
                            Inl e \<Rightarrow> (st1, Some e)
                          | Inr False \<Rightarrow> (st1, None)
                          | Inr True \<Rightarrow>
                              (case str_lower (as_domain ip) of
                                 Inl e \<Rightarrow> (st1, Some e)
                               | Inr d \<Rightarrow>
                                   (st1\<lparr>domains := group_add (domains st1) d ipv net\<rparr>, None)))))
          else (st, None))"

text \<open>The scan: \<^verbatim>\<open>except Exception: continue\<close> drops the exception and goes on.\<close>

definition scan :: "('k \<Rightarrow> error + ipnet) \<Rightarrow> ('k \<times> pyval) list \<Rightarrow> scan_state \<Rightarrow> scan_state" where
  "scan ip_network reader st = fold (\<lambda>kr st. fst (observe ip_network st kr)) reader st"

definition scan_all :: "('k \<Rightarrow> error + ipnet) \<Rightarrow> ('k \<times> pyval) list \<Rightarrow> scan_state" where
  "scan_all ip_network reader = scan ip_network reader \<lparr>countries = [], domains = []\<rparr>"

section \<open>Writing the zone files\<close>

text \<open>
  The file system is a map from paths to file contents, together with the messages of
  the main logger. \<open>fails p\<close> says that creating the directory of \<open>p\<close> or opening \<open>p\<close>
  for writing raises \<^verbatim>\<open>OSError\<close>. A path is a string; \<^verbatim>\<open>/\<close> on paths joins with a slash.
\<close>

record world =
  files :: "string \<rightharpoonup> string"
  log :: "string list"

definition zone_path :: "string \<Rightarrow> string \<Rightarrow> string \<Rightarrow> string \<Rightarrow> string" where
  "zone_path data_dir kind ver key = data_dir @ ''/'' @ kind @ ''/'' @ ver @ ''/'' @ key @ ''.zone''"

definition aggregated_path :: "string \<Rightarrow> string \<Rightarrow> string" where
  "aggregated_path data_dir ver = data_dir @ ''/domains/'' @ ver @ ''/aggregated.zone''"

text \<open>\<^verbatim>\<open>f"{count:<5}"\<close>: left-aligned in a field of width 5.\<close>

definition ljust :: "nat \<Rightarrow> string \<Rightarrow> string" where
  "ljust w s = s @ replicate (w - length s) CHR '' ''"

text \<open>The loop of \<^verbatim>\<open>save_zone_file\<close>: the text written so far and \<^verbatim>\<open>count\<close>.\<close>

fun write_lines :: "ipnet list \<Rightarrow> string \<times> nat \<Rightarrow> string \<times> nat" where
  "write_lines [] (buf, count) = (buf, count)"
| "write_lines (net # nets) (buf, count) =
     write_lines nets (buf @ str_net net @ [CHR 0x0A], count + 1)"

text \<open>
  \<^verbatim>\<open>save_zone_file\<close>: opening with mode \<^verbatim>\<open>"w"\<close> replaces the file. The function has no
  \<^verbatim>\<open>return\<close>, so its value is \<^verbatim>\<open>None\<close>; the count goes into the log message.
\<close>

definition save_zone_file ::
  "(string \<Rightarrow> bool) \<Rightarrow> string \<Rightarrow> ipnet list \<Rightarrow> world \<Rightarrow> (error + pyval) \<times> world" where
  "save_zone_file fails zone_file networks w =
     (if fails zone_file then (Inl (OSError zone_file), w)
      else
        (case write_lines networks ([], 0) of
           (buf, count) \<Rightarrow>
             (Inr PNone,
              w\<lparr>files := (files w)(zone_file \<mapsto> buf),
                log := log w @ [''Saved '' @ ljust 5 (str_nat count) @ '' networks to '' @ zone_file]\<rparr>)))"

text \<open>
  \<^verbatim>\<open>save_zone_file\<close> on an iterable that may raise when it is first iterated, as the
  generator of \<^verbatim>\<open>collapse_addresses\<close> may: the file is open by then, hence empty, and
  the exception leaves the function before anything is written or logged.
\<close>

definition save_zone_file_iter ::
  "(string \<Rightarrow> bool) \<Rightarrow> string \<Rightarrow> error + ipnet list \<Rightarrow> world \<Rightarrow> (error + pyval) \<times> world" where
  "save_zone_file_iter fails zone_file gen w =
     (case gen of
        Inr networks \<Rightarrow> save_zone_file fails zone_file networks w
      | Inl e \<Rightarrow>
          if fails zone_file then (Inl (OSError zone_file), w)
          else (Inl e, w\<lparr>files := (files w)(zone_file \<mapsto> [])\<rparr>))"

text \<open>
  The loop over \<^verbatim>\<open>countries.items()\<close> for one version. \<open>order\<close> is the order in which
  the set of networks is iterated. An exception leaves the loop.
\<close>

fun write_countries ::
  "(string \<Rightarrow> bool) \<Rightarrow> (ipnet list \<Rightarrow> ipnet list) \<Rightarrow> string \<Rightarrow> string \<Rightarrow> groups \<Rightarrow> world
     \<Rightarrow> error option \<times> world" where
  "write_countries fails order data_dir ver [] w = (None, w)"
| "write_countries fails order data_dir ver ((c, ip_networks) # rest) w =
     (case map_of ip_networks ver of
        None \<Rightarrow> write_countries fails order data_dir ver rest w
      | Some nets \<Rightarrow>
          (case collapse_addresses_gen (order nets) of
             Inl e \<Rightarrow> (Some e, w)
           | Inr gen \<Rightarrow>
               (case save_zone_file_iter fails (zone_path data_dir ''countries'' ver c) gen w of
                  (Inl e, w') \<Rightarrow> (Some e, w')
                | (Inr r, w') \<Rightarrow> write_countries fails order data_dir ver rest w')))"

text \<open>
  The loop over \<^verbatim>\<open>domains.items()\<close> for one version; \<open>af\<close> is what has been written to
  the open aggregated file. \<^verbatim>\<open>shutil.copyfileobj(open(zone_file, "r"), af)\<close> reads the
  zone file back and appends it.
\<close>

fun write_domains ::
  "(string \<Rightarrow> bool) \<Rightarrow> (ipnet list \<Rightarrow> ipnet list) \<Rightarrow> string \<Rightarrow> string \<Rightarrow> groups \<Rightarrow> world \<times> string
     \<Rightarrow> error option \<times> world \<times> string" where
  "write_domains fails order data_dir ver [] (w, af) = (None, w, af)"
| "write_domains fails order data_dir ver ((d, ip_networks) # rest) (w, af) =
     (case map_of ip_networks ver of
        None \<Rightarrow> write_domains fails order data_dir ver rest (w, af)
      | Some nets \<Rightarrow>
          (case collapse_addresses_gen (order nets) of
             Inl e \<Rightarrow> (Some e, w, af)
           | Inr gen \<Rightarrow>
               (case save_zone_file_iter fails (zone_path data_dir ''domains'' ver d) gen w of
                  (Inl e, w') \<Rightarrow> (Some e, w', af)
                | (Inr r, w') \<Rightarrow>
                    (case files w' (zone_path data_dir ''domains'' ver d) of
                       None \<Rightarrow> (Some (OSError (zone_path data_dir ''domains'' ver d)), w', af)
                     | Some text \<Rightarrow>
                         write_domains fails order data_dir ver rest (w', af @ text)))))"

text \<open>
  One round of \<^verbatim>\<open>for version in ip_versions\<close>. Opening the aggregated file empties it;
  leaving the \<^verbatim>\<open>with\<close> block, by its end or by an exception, closes it with what was
  written to it.
\<close>

definition write_version ::
  "(string \<Rightarrow> bool) \<Rightarrow> (ipnet list \<Rightarrow> ipnet list) \<Rightarrow> string \<Rightarrow> scan_state \<Rightarrow> string \<Rightarrow> world
     \<Rightarrow> error option \<times> world" where
  "write_version fails order data_dir st ver w =
     (case write_countries fails order data_dir ver (countries st) w of
        (Some e, w1) \<Rightarrow> (Some e, w1)
      | (None, w1) \<Rightarrow>
          if fails (aggregated_path data_dir ver)
          then (Some (OSError (aggregated_path data_dir ver)), w1)
          else
            (case write_domains fails order data_dir ver (domains st)
                    (w1\<lparr>files := (files w1)(aggregated_path data_dir ver \<mapsto> [])\<rparr>, []) of
               (r, w2, af) \<Rightarrow> (r, w2\<lparr>files := (files w2)(aggregated_path data_dir ver \<mapsto> af)\<rparr>)))"

fun write_versions ::
  "(string \<Rightarrow> bool) \<Rightarrow> (ipnet list \<Rightarrow> ipnet list) \<Rightarrow> string \<Rightarrow> scan_state \<Rightarrow> string list \<Rightarrow> world
     \<Rightarrow> error option \<times> world" where
  "write_versions fails order data_dir st [] w = (None, w)"
| "write_versions fails order data_dir st (ver # vers) w =
     (case write_version fails order data_dir st ver w of
        (Some e, w') \<Rightarrow> (Some e, w')
      | (None, w') \<Rightarrow> write_versions fails order data_dir st vers w')"

text \<open>
  \<^verbatim>\<open>extract_ip_networks(db_file)\<close>: the first log message, the scan of what the reader
  of \<open>db_file\<close> yields, then the output for \<^verbatim>\<open>ipv4\<close> and \<^verbatim>\<open>ipv6\<close>. The result is the
  exception that left the function, if any, and the file system.
\<close>

definition extract_ip_networks ::
  "(string \<Rightarrow> bool) \<Rightarrow> ('k \<Rightarrow> error + ipnet) \<Rightarrow> (ipnet list \<Rightarrow> ipnet list) \<Rightarrow> string \<Rightarrow> string
     \<Rightarrow> ('k \<times> pyval) list \<Rightarrow> world \<Rightarrow> error option \<times> world" where
  "extract_ip_networks fails ip_network order db_file data_dir reader w =
     write_versions fails order data_dir (scan_all ip_network reader) [''ipv4'', ''ipv6'']
       (w\<lparr>log := log w @ [''Extracting IP networks from '' @ db_file]\<rparr>)"

text \<open>
  What reading a file gives (nothing for a missing file), the keys of a group table that
  have networks of a version, in the table's order, and the two facts about the domain
  table that keep its zone files apart: its keys are distinct, and none of them is the
  name of the aggregated file.
\<close>

definition file_text :: "world \<Rightarrow> string \<Rightarrow> string" where
  "file_text w p = (case files w p of Some content \<Rightarrow> content | None \<Rightarrow> [])"

definition visited_keys :: "string \<Rightarrow> groups \<Rightarrow> string list" where
  "visited_keys ver g = map fst (filter (\<lambda>kv. map_of (snd kv) ver \<noteq> None) g)"

definition domains_ok :: "scan_state \<Rightarrow> bool" where
  "domains_ok st = (distinct (map fst (domains st)) \<and> ''aggregated'' \<notin> fst ` set (domains st))"


section \<open>Example inputs\<close>

text \<open>
  A reader whose keys are already (family, address, prefix length) triples:
  \<^verbatim>\<open>ip_network\<close> accepts a triple that denotes a network and raises \<^verbatim>\<open>ValueError\<close>
  on any other.
\<close>

definition network_of_triple :: "ipnet \<Rightarrow> error + ipnet" where
  "network_of_triple n = (if valid_net n then Inr n else Inl ValueError)"

text \<open>The networks \<^verbatim>\<open>1.0.0.0/24\<close> and \<^verbatim>\<open>1.0.1.0/24\<close>.\<close>

definition net_a :: ipnet where
  "net_a = \<lparr>version = IPv4, network_address = 16777216, prefixlen = 24\<rparr>"

definition net_b :: ipnet where
  "net_b = \<lparr>version = IPv4, network_address = 16777472, prefixlen = 24\<rparr>"

definition cn_record :: "string \<Rightarrow> pyval \<Rightarrow> pyval" where
  "cn_record d n =
     PDict [(PStr ''country_code'', PStr ''CN''), (PStr ''as_domain'', PStr d), (PStr ''as_name'', n)]"

text \<open>Their union \<^verbatim>\<open>1.0.0.0/23\<close>.\<close>

definition net_ab :: ipnet where
  "net_ab = \<lparr>version = IPv4, network_address = 16777216, prefixlen = 23\<rparr>"

text \<open>A reader with two records of the target country, one for each of two domains.\<close>

definition two_domains :: "(ipnet \<times> pyval) list" where
  "two_domains =
     [(net_a, cn_record ''qq.com'' (PStr ''Tencent'')),
      (net_b, cn_record ''baidu.com'' (PStr ''Baidu''))]"

definition empty_state :: scan_state where
  "empty_state = \<lparr>countries = [], domains = []\<rparr>"

definition empty_world :: world where
  "empty_world = \<lparr>files = Map.empty, log = []\<rparr>"

text \<open>A file system in which the aggregated file of \<^verbatim>\<open>ipv4\<close> is left over from before.\<close>

definition world_old :: world where
  "world_old = \<lparr>files = [''data/domains/ipv4/aggregated.zone'' \<mapsto> ''old''], log = []\<rparr>"



section \<open>Properties of the classifier\<close>

text \<open>Lowercasing and word characters on the ASCII letters, digits and a few signs.\<close>

lemma lower_char_ascii:
  "lower_char CHR ''A'' = CHR ''a'' \<and> lower_char CHR ''B'' = CHR ''b'' \<and>
   lower_char CHR ''C'' = CHR ''c'' \<and> lower_char CHR ''D'' = CHR ''d'' \<and>
   lower_char CHR ''E'' = CHR ''e'' \<and> lower_char CHR ''F'' = CHR ''f'' \<and>
   lower_char CHR ''G'' = CHR ''g'' \<and> lower_char CHR ''H'' = CHR ''h'' \<and>
   lower_char CHR ''I'' = CHR ''i'' \<and> lower_char CHR ''J'' = CHR ''j'' \<and>
   lower_char CHR ''K'' = CHR ''k'' \<and> lower_char CHR ''L'' = CHR ''l'' \<and>
   lower_char CHR ''M'' = CHR ''m'' \<and> lower_char CHR ''N'' = CHR ''n'' \<and>
   lower_char CHR ''O'' = CHR ''o'' \<and> lower_char CHR ''P'' = CHR ''p'' \<and>
   lower_char CHR ''Q'' = CHR ''q'' \<and> lower_char CHR ''R'' = CHR ''r'' \<and>
   lower_char CHR ''S'' = CHR ''s'' \<and> lower_char CHR ''T'' = CHR ''t'' \<and>
   lower_char CHR ''U'' = CHR ''u'' \<and> lower_char CHR ''V'' = CHR ''v'' \<and>
   lower_char CHR ''W'' = CHR ''w'' \<and> lower_char CHR ''X'' = CHR ''x'' \<and>
   lower_char CHR ''Y'' = CHR ''y'' \<and> lower_char CHR ''Z'' = CHR ''z'' \<and>
   lower_char CHR ''a'' = CHR ''a'' \<and> lower_char CHR ''b'' = CHR ''b'' \<and>
   lower_char CHR ''c'' = CHR ''c'' \<and> lower_char CHR ''d'' = CHR ''d'' \<and>
   lower_char CHR ''e'' = CHR ''e'' \<and> lower_char CHR ''f'' = CHR ''f'' \<and>
   lower_char CHR ''g'' = CHR ''g'' \<and> lower_char CHR ''h'' = CHR ''h'' \<and>
   lower_char CHR ''i'' = CHR ''i'' \<and> lower_char CHR ''j'' = CHR ''j'' \<and>
   lower_char CHR ''k'' = CHR ''k'' \<and> lower_char CHR ''l'' = CHR ''l'' \<and>
   lower_char CHR ''m'' = CHR ''m'' \<and> lower_char CHR ''n'' = CHR ''n'' \<and>
   lower_char CHR ''o'' = CHR ''o'' \<and> lower_char CHR ''p'' = CHR ''p'' \<and>
   lower_char CHR ''q'' = CHR ''q'' \<and> lower_char CHR ''r'' = CHR ''r'' \<and>
   lower_char CHR ''s'' = CHR ''s'' \<and> lower_char CHR ''t'' = CHR ''t'' \<and>
   lower_char CHR ''u'' = CHR ''u'' \<and> lower_char CHR ''v'' = CHR ''v'' \<and>
   lower_char CHR ''w'' = CHR ''w'' \<and> lower_char CHR ''x'' = CHR ''x'' \<and>
   lower_char CHR ''y'' = CHR ''y'' \<and> lower_char CHR ''z'' = CHR ''z'' \<and>
   lower_char CHR ''0'' = CHR ''0'' \<and> lower_char CHR ''1'' = CHR ''1'' \<and>
   lower_char CHR ''2'' = CHR ''2'' \<and> lower_char CHR ''3'' = CHR ''3'' \<and>
   lower_char CHR ''4'' = CHR ''4'' \<and> lower_char CHR ''5'' = CHR ''5'' \<and>
   lower_char CHR ''6'' = CHR ''6'' \<and> lower_char CHR ''7'' = CHR ''7'' \<and>
   lower_char CHR ''8'' = CHR ''8'' \<and> lower_char CHR ''9'' = CHR ''9'' \<and>
   lower_char CHR '' '' = CHR '' '' \<and> lower_char CHR ''-'' = CHR ''-'' \<and>
   lower_char CHR ''.'' = CHR ''.'' \<and> lower_char CHR ''_'' = CHR ''_''"
  by code_simp

lemma is_word_char_ascii:
  "is_word_char CHR ''A'' \<and> is_word_char CHR ''B'' \<and>
   is_word_char CHR ''C'' \<and> is_word_char CHR ''D'' \<and>
   is_word_char CHR ''E'' \<and> is_word_char CHR ''F'' \<and>
   is_word_char CHR ''G'' \<and> is_word_char CHR ''H'' \<and>
   is_word_char CHR ''I'' \<and> is_word_char CHR ''J'' \<and>
   is_word_char CHR ''K'' \<and> is_word_char CHR ''L'' \<and>
   is_word_char CHR ''M'' \<and> is_word_char CHR ''N'' \<and>
   is_word_char CHR ''O'' \<and> is_word_char CHR ''P'' \<and>
   is_word_char CHR ''Q'' \<and> is_word_char CHR ''R'' \<and>
   is_word_char CHR ''S'' \<and> is_word_char CHR ''T'' \<and>
   is_word_char CHR ''U'' \<and> is_word_char CHR ''V'' \<and>
   is_word_char CHR ''W'' \<and> is_word_char CHR ''X'' \<and>
   is_word_char CHR ''Y'' \<and> is_word_char CHR ''Z'' \<and>
   is_word_char CHR ''a'' \<and> is_word_char CHR ''b'' \<and>
   is_word_char CHR ''c'' \<and> is_word_char CHR ''d'' \<and>
   is_word_char CHR ''e'' \<and> is_word_char CHR ''f'' \<and>
   is_word_char CHR ''g'' \<and> is_word_char CHR ''h'' \<and>
   is_word_char CHR ''i'' \<and> is_word_char CHR ''j'' \<and>
   is_word_char CHR ''k'' \<and> is_word_char CHR ''l'' \<and>
   is_word_char CHR ''m'' \<and> is_word_char CHR ''n'' \<and>
   is_word_char CHR ''o'' \<and> is_word_char CHR ''p'' \<and>
   is_word_char CHR ''q'' \<and> is_word_char CHR ''r'' \<and>
   is_word_char CHR ''s'' \<and> is_word_char CHR ''t'' \<and>
   is_word_char CHR ''u'' \<and> is_word_char CHR ''v'' \<and>
   is_word_char CHR ''w'' \<and> is_word_char CHR ''x'' \<and>
   is_word_char CHR ''y'' \<and> is_word_char CHR ''z'' \<and>
   is_word_char CHR ''0'' \<and> is_word_char CHR ''1'' \<and>
   is_word_char CHR ''2'' \<and> is_word_char CHR ''3'' \<and>
   is_word_char CHR ''4'' \<and> is_word_char CHR ''5'' \<and>
   is_word_char CHR ''6'' \<and> is_word_char CHR ''7'' \<and>
   is_word_char CHR ''8'' \<and> is_word_char CHR ''9'' \<and>
   \<not> is_word_char CHR '' '' \<and> \<not> is_word_char CHR ''-'' \<and>
   \<not> is_word_char CHR ''.'' \<and> is_word_char CHR ''_''"
  by code_simp

text \<open>The compiled pattern: sixteen branches, anchored only at the two ends.\<close>

lemma re_parse_AS_NAME_PATTERN:
  "re_parse AS_NAME_PATTERN = Some
    [Boundary # map Lit ''Beijing'', map Lit ''Tianjin'', map Lit ''Hebei'',
     map Lit ''Jiangsu'', map Lit ''Nanjing'', map Lit ''Sichuan'', map Lit ''SHAANXI'',
     map Lit ''Xiamen'', map Lit ''Shandong'', map Lit ''Qingdao'', map Lit ''Jinan'',
     map Lit ''Guizhou'', map Lit ''Guangdong'', map Lit ''NINGXIA'', map Lit ''Yunnan'',
     map Lit ''Cloud Computing Corporation'' @ [Boundary]]"
  by code_simp

lemma REGEX_AS_NAME_eq:
  "REGEX_AS_NAME =
    [Boundary # map Lit ''Beijing'', map Lit ''Tianjin'', map Lit ''Hebei'',
     map Lit ''Jiangsu'', map Lit ''Nanjing'', map Lit ''Sichuan'', map Lit ''SHAANXI'',
     map Lit ''Xiamen'', map Lit ''Shandong'', map Lit ''Qingdao'', map Lit ''Jinan'',
     map Lit ''Guizhou'', map Lit ''Guangdong'', map Lit ''NINGXIA'', map Lit ''Yunnan'',
     map Lit ''Cloud Computing Corporation'' @ [Boundary]]"
  by (simp add: REGEX_AS_NAME_def re_parse_AS_NAME_PATTERN)

lemmas re_eval = REGEX_AS_NAME_eq re_search_def at_boundary_def is_word_char_ascii lower_char_ascii

lemma AS_DOMAIN_KV_chinatelecom:
  "AS_DOMAIN_KV ''chinatelecom.cn'' = Some (AsDomain_by_name ''chinatelecom.cn'')"
  by code_simp

lemma AS_DOMAIN_KV_qq:
  "AS_DOMAIN_KV ''qq.com'' = Some (AsDomain_default ''qq.com'')"
  by code_simp

text \<open>
  C1, as the code has it: for a record whose AS domain and AS name are strings,
  \<open>is_filter_domain\<close> returns true iff the domain is non-empty, the rule table has a
  rule under the domain exactly as it is written in the record (the key is not
  lowercased), the rule's \<open>is_filter\<close> flag is set, and the rule does not ask for the
  AS name or the compiled pattern is found in the AS name; it returns false otherwise,
  also for an absent (empty) domain.
\<close>

theorem is_filter_domain_exact_key:
  "is_filter_domain (ip\<lparr>as_domain := PStr d, as_name := PStr n\<rparr>) =
     Inr (d \<noteq> [] \<and>
          (case AS_DOMAIN_KV d of
             None \<Rightarrow> False
           | Some rule \<Rightarrow>
               is_filter rule \<and> (\<not> use_as_name rule \<or> re_search REGEX_AS_NAME n)))"
  by (simp add: is_filter_domain_def split: option.splits)

theorem is_filter_domain_exact_key_witness:
  "is_filter_domain
     (IPInfo_default\<lparr>as_domain := PStr ''chinatelecom.cn'', as_name := PStr ''Jiangsu Telecom''\<rparr>)
     = Inr True
   \<and> is_filter_domain
     (IPInfo_default\<lparr>as_domain := PStr ''chinatelecom.cn'', as_name := PStr ''No-Province-ISP''\<rparr>)
     = Inr False
   \<and> is_filter_domain
     (IPInfo_default\<lparr>as_domain := PStr ''qq.com'', as_name := PStr ''Beijing QQ Network''\<rparr>)
     = Inr True
   \<and> is_filter_domain (IPInfo_default\<lparr>as_domain := PStr [], as_name := PStr []\<rparr>) = Inr False"
proof -
  have c: "re_search REGEX_AS_NAME ''Jiangsu Telecom''"
    by (simp add: re_eval)
  have d: "\<not> re_search REGEX_AS_NAME ''No-Province-ISP''"
    by (simp add: re_eval)
  show ?thesis
    using c d
    by (simp add: is_filter_domain_exact_key AS_DOMAIN_KV_chinatelecom AS_DOMAIN_KV_qq
        AsDomain_by_name_def AsDomain_default_def)
qed

text \<open>
  C1 as stated fails: the domain \<^verbatim>\<open>QQ.COM\<close> has a rule under its lowercase form, so
  the stated condition holds, but the code looks the domain up as written and returns
  false.
\<close>

theorem is_filter_domain_uppercase_counterexample:
  "spec_is_filtered_domain ''QQ.COM'' ''Tencent''
   \<and> is_filter_domain (IPInfo_default\<lparr>as_domain := PStr ''QQ.COM'', as_name := PStr ''Tencent''\<rparr>)
       = Inr False"
proof -
  have l: "lower ''QQ.COM'' = ''qq.com''"
    by (simp add: lower_def lower_char_ascii)
  have a: "spec_is_filtered_domain ''QQ.COM'' ''Tencent''"
    by (simp add: spec_is_filtered_domain_def l AS_DOMAIN_KV_qq AsDomain_default_def)
  have b: "AS_DOMAIN_KV ''QQ.COM'' = None"
    by code_simp
  have c: "is_filter_domain (IPInfo_default\<lparr>as_domain := PStr ''QQ.COM'', as_name := PStr ''Tencent''\<rparr>)
       = Inr False"
    using b by (simp add: is_filter_domain_def)
  show ?thesis using a c by simp
qed

text \<open>
  C3: the pattern text has one \<^verbatim>\<open>\b\<close> in front of the whole alternation and one
  behind it, so only the first branch is anchored on its left and only the last on its
  right. The keyword \<^verbatim>\<open>Tianjin\<close> is found inside the longer word \<^verbatim>\<open>XTianjinY\<close>, and
  a \<^verbatim>\<open>chinatelecom.cn\<close> record with that AS name passes the filter.
\<close>

theorem keyword_inside_word_matches:
  "regex_search REGEX_AS_NAME (PStr ''XTianjinY'') = Inr True
   \<and> is_filter_domain
        (IPInfo_default\<lparr>as_domain := PStr ''chinatelecom.cn'', as_name := PStr ''XTianjinY''\<rparr>)
       = Inr True"
proof -
  have c: "re_search REGEX_AS_NAME ''XTianjinY''"
    by (simp add: re_eval)
  show ?thesis
    using c by (simp add: is_filter_domain_def AS_DOMAIN_KV_chinatelecom AsDomain_by_name_def)
qed

section \<open>The example inputs evaluated\<close>

lemma valid_examples: "valid_net net_a \<and> valid_net net_b"
  by (simp add: valid_net_def net_a_def net_b_def host_bits_def ALL_ONES_def)

lemma network_of_triple_examples:
  "network_of_triple net_a = Inr net_a \<and> network_of_triple net_b = Inr net_b"
  by (simp add: network_of_triple_def valid_examples)

lemma ipv_name_examples: "ipv_name net_a = ''ipv4'' \<and> ipv_name net_b = ''ipv4''"
  by (simp add: ipv_name_def net_a_def net_b_def)

lemma str_net_examples:
  "str_net net_a = ''1.0.0.0/24'' \<and> str_net net_b = ''1.0.1.0/24''"
  by (simp add: str_net_def str_ipv4_def net_a_def net_b_def str_nat.simps digit_char_def)

lemma lower_CN: "lower ''CN'' = ''cn''"
  by (simp add: lower_def lower_char_ascii)

lemma write_lines_eq:
  "write_lines nets (buf, c) =
     (buf @ concat (map (\<lambda>n. str_net n @ [CHR 0x0A]) nets), c + length nets)"
  by (induction nets arbitrary: buf c) auto

lemmas collapse_eval = collapse_addresses_def collapse_addresses_gen_def
  collapse_addresses_internal_def split_loop.simps
  summarize_ips_def merge_loop.simps supernet_def host_bits_def dict_del_def sorted_nets_def
  net_key_def netmask_def hostmask_def ALL_ONES_def broadcast_address_def

lemma collapse_examples:
  "collapse_addresses [net_a] = Inr [net_a] \<and> collapse_addresses [net_b] = Inr [net_b]
   \<and> collapse_addresses [net_b, net_a] = Inr [net_ab]
   \<and> collapse_addresses_gen [net_a] = Inr (Inr [net_a])
   \<and> collapse_addresses_gen [net_b] = Inr (Inr [net_b])
   \<and> collapse_addresses_gen [net_b, net_a] = Inr (Inr [net_ab])"
  by (simp add: collapse_eval net_a_def net_b_def net_ab_def)

lemma net_a_neq_b: "net_a \<noteq> net_b" "net_b \<noteq> net_a"
  by (simp_all add: net_a_def net_b_def)

lemma AS_DOMAIN_KV_baidu:
  "AS_DOMAIN_KV ''baidu.com'' = Some (AsDomain_default ''baidu.com'')"
  by code_simp

lemma lower_examples: "lower ''qq.com'' = ''qq.com'' \<and> lower ''baidu.com'' = ''baidu.com''"
  by (simp add: lower_def lower_char_ascii)

lemma scan_two_domains:
  "scan_all network_of_triple two_domains =
     \<lparr>countries = [(''cn'', [(''ipv4'', [net_b, net_a])])],
      domains = [(''qq.com'', [(''ipv4'', [net_a])]), (''baidu.com'', [(''ipv4'', [net_b])])]\<rparr>"
  by (simp add: scan_all_def scan_def two_domains_def observe_def cn_record_def field_def
      is_cn_def network_of_triple_examples lower_CN lower_examples group_add_def dict_set_def
      ipv_name_examples is_filter_domain_def AS_DOMAIN_KV_qq AS_DOMAIN_KV_baidu
      AsDomain_default_def net_a_neq_b Let_def)

lemmas output_eval = extract_ip_networks_def write_version_def save_zone_file_def
  save_zone_file_iter_def
  zone_path_def aggregated_path_def write_lines_eq str_net_examples collapse_examples

lemma str_net_ab: "str_net net_ab = ''1.0.0.0/23''"
  by (simp add: str_net_def str_ipv4_def net_ab_def str_nat.simps digit_char_def)

lemma ljust_one: "ljust 5 (str_nat (Suc 0)) = ''1    ''"
proof -
  have "str_nat (Suc 0) = ''1''"
    by (simp add: str_nat.simps digit_char_def)
  moreover have "ljust 5 ''1'' = ''1    ''"
    by code_simp
  ultimately show ?thesis by simp
qed


section \<open>Properties of the scan\<close>

lemma scan_append: "scan f (xs @ ys) st = scan f ys (scan f xs st)"
  by (simp add: scan_def)

text \<open>
  C6, as the code has it: a record from which no \<open>IPInfo\<close> can be built, or whose key
  does not parse as a network, changes neither group table, and the scan of a reader
  that holds such a record ends in the same tables as the scan without it. The scan is a
  total function: no record ends it.
\<close>

theorem unreadable_record_is_skipped:
  assumes "isl (from_dict r) \<or> isl (ip_network key)"
  shows "fst (observe ip_network st (key, r)) = st
    \<and> scan ip_network (xs @ (key, r) # ys) st0 = scan ip_network (xs @ ys) st0"
proof -
  have a: "fst (observe ip_network st' (key, r)) = st'" for st'
    using assms by (auto simp: observe_def isl_def split: sum.splits)
  have "scan ip_network ((key, r) # ys) st' = scan ip_network ys st'" for st'
    by (simp add: scan_def a)
  then show ?thesis
    using a by (simp add: scan_append)
qed

theorem unreadable_record_is_skipped_witness:
  "isl (from_dict PNone)
   \<and> scan network_of_triple
       ([(net_a, cn_record ''qq.com'' (PStr ''x''))] @ (net_b, PNone)
          # [(net_b, cn_record ''baidu.com'' (PStr ''x''))]) empty_state
     = scan network_of_triple
       ([(net_a, cn_record ''qq.com'' (PStr ''x''))] @ [(net_b, cn_record ''baidu.com'' (PStr ''x''))])
       empty_state"
proof -
  have h: "isl (from_dict PNone) \<or> isl (network_of_triple net_b)"
    by simp
  show ?thesis
    using h unreadable_record_is_skipped [where ip_network = network_of_triple
        and key = net_b and r = PNone and st = empty_state and ?st0.0 = empty_state
        and xs = "[(net_a, cn_record ''qq.com'' (PStr ''x''))]"
        and ys = "[(net_b, cn_record ''baidu.com'' (PStr ''x''))]"]
    by simp
qed

text \<open>
  C6 as stated fails for a record whose classification raises after the country
  insertion: with an AS name that is a number, \<open>is_filter_domain\<close> raises TypeError in
  the pattern search, and the network is already in the country group.
\<close>

theorem classification_error_after_insert_counterexample:
  "observe network_of_triple empty_state (net_a, cn_record ''chinatelecom.cn'' (PInt 4134))
     = (\<lparr>countries = [(''cn'', [(''ipv4'', [net_a])])], domains = []\<rparr>, Some TypeError)"
  by (simp add: observe_def cn_record_def field_def is_cn_def network_of_triple_examples
      lower_CN group_add_def dict_set_def ipv_name_examples is_filter_domain_def
      AS_DOMAIN_KV_chinatelecom AsDomain_by_name_def empty_state_def)

section \<open>Properties of the zone file writer\<close>

text \<open>
  C4, as the code has it: when the file can be opened, \<open>save_zone_file\<close> returns
  \<^verbatim>\<open>None\<close>; the file at the path then holds exactly one line per network of the input,
  in the input's order, whatever it held before; and the count in the log message is
  the length of the input.
\<close>

theorem save_zone_file_writes_lines:
  assumes "\<not> fails zone_file"
  shows "save_zone_file fails zone_file networks w =
    (Inr PNone,
     w\<lparr>files := (files w)(zone_file \<mapsto> concat (map (\<lambda>n. str_net n @ [CHR 0x0A]) networks)),
       log := log w @
         [''Saved '' @ ljust 5 (str_nat (length networks)) @ '' networks to '' @ zone_file]\<rparr>)"
  using assms by (simp add: save_zone_file_def write_lines_eq)

theorem save_zone_file_writes_lines_witness:
  "\<not> (\<lambda>p. False) ''cn.zone''
   \<and> save_zone_file (\<lambda>p. False) ''cn.zone'' [net_a, net_b]
        (empty_world\<lparr>files := (files empty_world)(''cn.zone'' \<mapsto> ''old'')\<rparr>)
     = (Inr PNone,
        empty_world\<lparr>files := (files empty_world)(''cn.zone'' \<mapsto> ''1.0.0.0/24'' @ [CHR 0x0A] @ ''1.0.1.0/24'' @ [CHR 0x0A]),
          log := [''Saved 2     networks to cn.zone'']\<rparr>)"
proof -
  have h: "\<not> (\<lambda>p :: string. False) ''cn.zone''"
    by simp
  have s: "str_nat 2 = ''2''"
    by (simp add: str_nat.simps digit_char_def)
  have r: "ljust 5 ''2'' = ''2    ''"
    by code_simp
  have l: "length [net_a, net_b] = 2"
    by simp
  have n: "ljust 5 (str_nat (length [net_a, net_b])) = ''2    ''"
    unfolding l s r by (rule refl)
  show ?thesis
    using h save_zone_file_writes_lines [where fails = "\<lambda>p. False" and zone_file = "''cn.zone''"
        and networks = "[net_a, net_b]"
        and w = "empty_world\<lparr>files := (files empty_world)(''cn.zone'' \<mapsto> ''old'')\<rparr>"]
    unfolding n by (simp add: str_net_examples empty_world_def)
qed

text \<open>
  C4 as stated fails: the function returns \<^verbatim>\<open>None\<close>, not the number of lines.
\<close>

theorem save_zone_file_returns_none_counterexample:
  "fst (save_zone_file (\<lambda>p. False) ''cn.zone'' [net_a] empty_world) = Inr PNone
   \<and> Inr PNone \<noteq> (Inr (PInt (int (length [net_a]))) :: error + pyval)"
  by (simp add: save_zone_file_def write_lines_eq)

section \<open>Write failures\<close>










section \<open>Keys of the group tables and files the output touches\<close>

lemma dict_set_keys:
  "map fst (dict_set d k v) = (if k \<in> fst ` set d then map fst d else map fst d @ [k])"
  by (induction d) (auto simp: dict_set_def)

lemma group_add_keys:
  "map fst (group_add g key ipv net) = (if key \<in> fst ` set g then map fst g else map fst g @ [key])"
  by (simp add: group_add_def Let_def dict_set_keys)

lemma is_cn_lower: "is_cn ip \<Longrightarrow> str_lower (country_code ip) = Inr ''cn''"
  by (simp add: is_cn_def lower_CN)

lemma observe_countries_keys:
  assumes "map fst (countries st) \<in> {[], [''cn'']}"
  shows "map fst (countries (fst (observe f st kr))) \<in> {[], [''cn'']}"
proof -
  have "map fst (group_add (countries st) ''cn'' ipv net) \<in> {[], [''cn'']}" for ipv net
    using assms by (auto simp: group_add_keys)
  then show ?thesis
    using assms
    by (auto simp: observe_def Let_def is_cn_lower split: sum.splits bool.splits)
qed

lemma scan_countries_keys:
  "map fst (countries st) \<in> {[], [''cn'']} \<Longrightarrow>
   map fst (countries (scan f reader st)) \<in> {[], [''cn'']}"
proof (induction reader arbitrary: st)
  case Nil
  then show ?case by (simp add: scan_def)
next
  case (Cons kr reader)
  have "scan f (kr # reader) st = scan f reader (fst (observe f st kr))"
    by (simp add: scan_def)
  then show ?case
    using Cons.IH [OF observe_countries_keys [OF Cons.prems]] by simp
qed

lemma save_zone_file_iter_frame:
  "save_zone_file_iter fails p gen w = (r, w') \<Longrightarrow> q \<noteq> p \<Longrightarrow> files w' q = files w q"
  by (auto simp: save_zone_file_iter_def save_zone_file_def split: if_splits prod.splits sum.splits)

lemma write_countries_frame:
  "write_countries fails order dir ver g w = (r, w') \<Longrightarrow>
   \<forall>c \<in> fst ` set g. q \<noteq> zone_path dir ''countries'' ver c \<Longrightarrow> files w' q = files w q"
proof (induction g arbitrary: w)
  case Nil
  then show ?case by simp
next
  case (Cons a g)
  obtain c inner where a: "a = (c, inner)" by (cases a)
  show ?case
  proof (cases "map_of inner ver")
    case None
    then show ?thesis using Cons a by simp
  next
    case (Some nets)
    show ?thesis
    proof (cases "collapse_addresses_gen (order nets)")
      case (Inl e)
      then show ?thesis using Cons.prems a Some by simp
    next
      case (Inr gen)
      obtain r1 w1 where s: "save_zone_file_iter fails (zone_path dir ''countries'' ver c) gen w = (r1, w1)"
        by (cases "save_zone_file_iter fails (zone_path dir ''countries'' ver c) gen w")
      have f1: "files w1 q = files w q"
        using save_zone_file_iter_frame [OF s] Cons.prems(2) a by simp
      show ?thesis
      proof (cases r1)
        case (Inl e)
        then show ?thesis using Cons.prems a Some Inr s f1 by simp
      next
        case r1: (Inr x)
        then have "write_countries fails order dir ver g w1 = (r, w')"
          using Cons.prems(1) a Some Inr s by simp
        then have "files w' q = files w1 q"
          using Cons.IH Cons.prems(2) by simp
        then show ?thesis using f1 by simp
      qed
    qed
  qed
qed

lemma write_domains_frame:
  "write_domains fails order dir ver g (w, af) = (r, w', af') \<Longrightarrow>
   \<forall>d \<in> fst ` set g. q \<noteq> zone_path dir ''domains'' ver d \<Longrightarrow> files w' q = files w q"
proof (induction g arbitrary: w af)
  case Nil
  then show ?case by simp
next
  case (Cons a g)
  obtain d inner where a: "a = (d, inner)" by (cases a)
  show ?case
  proof (cases "map_of inner ver")
    case None
    then show ?thesis using Cons a by simp
  next
    case (Some nets)
    show ?thesis
    proof (cases "collapse_addresses_gen (order nets)")
      case (Inl e)
      then show ?thesis using Cons.prems a Some by simp
    next
      case (Inr gen)
      obtain r1 w1 where s: "save_zone_file_iter fails (zone_path dir ''domains'' ver d) gen w = (r1, w1)"
        by (cases "save_zone_file_iter fails (zone_path dir ''domains'' ver d) gen w")
      have f1: "files w1 q = files w q"
        using save_zone_file_iter_frame [OF s] Cons.prems(2) a by simp
      show ?thesis
      proof (cases r1)
        case (Inl e)
        then show ?thesis using Cons.prems a Some Inr s f1 by simp
      next
        case r1: (Inr x)
        show ?thesis
        proof (cases "files w1 (zone_path dir ''domains'' ver d)")
          case None
          then show ?thesis using Cons.prems a Some Inr s f1 r1 by simp
        next
          case (Some content)
          then have "write_domains fails order dir ver g (w1, af @ content) = (r, w', af')"
            using Cons.prems(1) a \<open>map_of inner ver = Some nets\<close> Inr s r1 by simp
          then have "files w' q = files w1 q"
            using Cons.IH Cons.prems(2) by simp
          then show ?thesis using f1 by simp
        qed
      qed
    qed
  qed
qed

lemma write_version_frame:
  assumes "write_version fails order dir st ver w = (r, w')"
      and "\<forall>c \<in> fst ` set (countries st). q \<noteq> zone_path dir ''countries'' ver c"
      and "\<forall>d \<in> fst ` set (domains st). q \<noteq> zone_path dir ''domains'' ver d"
      and "q \<noteq> aggregated_path dir ver"
  shows "files w' q = files w q"
proof -
  obtain r1 w1 where c: "write_countries fails order dir ver (countries st) w = (r1, w1)"
    by (cases "write_countries fails order dir ver (countries st) w")
  have f1: "files w1 q = files w q"
    using write_countries_frame [OF c assms(2)] .
  show ?thesis
  proof (cases r1)
    case (Some e)
    then show ?thesis using assms(1) c f1 by (simp add: write_version_def)
  next
    case None
    show ?thesis
    proof (cases "fails (aggregated_path dir ver)")
      case True
      then show ?thesis using assms(1) c f1 None by (simp add: write_version_def)
    next
      case False
      obtain r2 w2 af where d: "write_domains fails order dir ver (domains st)
          (w1\<lparr>files := (files w1)(aggregated_path dir ver \<mapsto> [])\<rparr>, []) = (r2, w2, af)"
        by (cases "write_domains fails order dir ver (domains st)
          (w1\<lparr>files := (files w1)(aggregated_path dir ver \<mapsto> [])\<rparr>, [])")
      have "files w2 q = files (w1\<lparr>files := (files w1)(aggregated_path dir ver \<mapsto> [])\<rparr>) q"
        using write_domains_frame [OF d assms(3)] .
      then have f2: "files w2 q = files w1 q"
        using assms(4) by simp
      have "w' = w2\<lparr>files := (files w2)(aggregated_path dir ver \<mapsto> af)\<rparr>"
        using assms(1) c None False d by (simp add: write_version_def)
      then show ?thesis using f1 f2 assms(4) by simp
    qed
  qed
qed

lemma write_versions_frame:
  "write_versions fails order dir st vers w = (r, w') \<Longrightarrow>
   \<forall>ver \<in> set vers.
      (\<forall>c \<in> fst ` set (countries st). q \<noteq> zone_path dir ''countries'' ver c)
      \<and> (\<forall>d \<in> fst ` set (domains st). q \<noteq> zone_path dir ''domains'' ver d)
      \<and> q \<noteq> aggregated_path dir ver \<Longrightarrow>
   files w' q = files w q"
proof (induction vers arbitrary: w)
  case Nil
  then show ?case by simp
next
  case (Cons ver vers)
  obtain r1 w1 where v: "write_version fails order dir st ver w = (r1, w1)"
    by (cases "write_version fails order dir st ver w")
  have f1: "files w1 q = files w q"
    using write_version_frame [OF v] Cons.prems(2) by simp
  show ?case
  proof (cases r1)
    case (Some e)
    then show ?thesis using Cons.prems(1) v f1 by simp
  next
    case None
    then have "write_versions fails order dir st vers w1 = (r, w')"
      using Cons.prems(1) v by simp
    then have "files w' q = files w1 q"
      using Cons.IH Cons.prems(2) by simp
    then show ?thesis using f1 by simp
  qed
qed

lemma country_path_eq:
  "dir @ ''/countries/'' @ rest = zone_path dir ''countries'' ver c \<longleftrightarrow> rest = ver @ ''/'' @ c @ ''.zone''"
  by (simp add: zone_path_def)

lemma country_path_neq:
  "dir @ ''/countries/'' @ rest \<noteq> zone_path dir ''domains'' ver d"
  "dir @ ''/countries/'' @ rest \<noteq> aggregated_path dir ver"
  by (simp_all add: zone_path_def aggregated_path_def)

text \<open>
  C10: after any scan the country table has no key or the single key \<^verbatim>\<open>cn\<close>, and a
  run changes no file under \<^verbatim>\<open>countries/\<close> of the data directory other than
  \<^verbatim>\<open>ipv4/cn.zone\<close> and \<^verbatim>\<open>ipv6/cn.zone\<close>.
\<close>

theorem only_cn_country_files:
  "map fst (countries (scan_all ip_network reader)) \<in> {[], [''cn'']}
   \<and> (files (snd (extract_ip_networks fails ip_network order db_file data_dir reader w))
          (data_dir @ ''/countries/'' @ rest)
        \<noteq> files w (data_dir @ ''/countries/'' @ rest)
       \<longrightarrow> rest \<in> {''ipv4/cn.zone'', ''ipv6/cn.zone''})"
proof -
  let ?st = "scan_all ip_network reader"
  let ?q = "data_dir @ ''/countries/'' @ rest"
  have keys: "map fst (countries ?st) \<in> {[], [''cn'']}"
    unfolding scan_all_def by (rule scan_countries_keys) simp
  have cn: "fst ` set (countries ?st) \<subseteq> {''cn''}"
  proof -
    have "fst ` set (countries ?st) = set (map fst (countries ?st))"
      by simp
    also have "\<dots> \<subseteq> set [''cn'']"
    proof (cases "map fst (countries ?st) = []")
      case True
      then show ?thesis by (simp only: list.set) simp
    next
      case False
      then have "map fst (countries ?st) = [''cn'']"
        using keys by simp
      then show ?thesis by (simp only: subset_refl)
    qed
    finally show ?thesis by simp
  qed
  obtain r w' where e: "write_versions fails order data_dir ?st [''ipv4'', ''ipv6'']
      (w\<lparr>log := log w @ [''Extracting IP networks from '' @ db_file]\<rparr>) = (r, w')"
    by (cases "write_versions fails order data_dir ?st [''ipv4'', ''ipv6'']
      (w\<lparr>log := log w @ [''Extracting IP networks from '' @ db_file]\<rparr>)")
  have "files w' ?q = files w ?q" if "rest \<notin> {''ipv4/cn.zone'', ''ipv6/cn.zone''}"
  proof -
    have "\<forall>ver \<in> set [''ipv4'', ''ipv6''].
      (\<forall>c \<in> fst ` set (countries ?st). ?q \<noteq> zone_path data_dir ''countries'' ver c)
      \<and> (\<forall>d \<in> fst ` set (domains ?st). ?q \<noteq> zone_path data_dir ''domains'' ver d)
      \<and> ?q \<noteq> aggregated_path data_dir ver"
    proof -
      have p1: "?q \<noteq> zone_path data_dir ''domains'' ver d" for ver d
        by (rule country_path_neq)
      have p2: "?q \<noteq> aggregated_path data_dir ver" for ver
        by (rule country_path_neq)
      have p3: "?q \<noteq> zone_path data_dir ''countries'' ver c"
        if "ver \<in> {''ipv4'', ''ipv6''}" and "c \<in> fst ` set (countries ?st)" for ver c
      proof -
        have "c = ''cn''" using cn that(2) by blast
        then have "rest \<noteq> ver @ ''/'' @ c @ ''.zone''"
          using that(1) \<open>rest \<notin> {''ipv4/cn.zone'', ''ipv6/cn.zone''}\<close> by auto
        then show ?thesis by (simp only: country_path_eq not_False_eq_True)
      qed
      show ?thesis
        using p1 p2 p3 by (simp only: list.set ball_simps insert_iff empty_iff) blast
    qed
    from write_versions_frame [OF e this] show ?thesis by simp
  qed
  then show ?thesis
    using keys e by (auto simp: extract_ip_networks_def)
qed

theorem only_cn_country_files_witness:
  "files (snd (extract_ip_networks (\<lambda>p. False) network_of_triple (\<lambda>xs. xs) ''db'' ''data''
             two_domains empty_world)) (''data'' @ ''/countries/'' @ ''ipv4/cn.zone'')
     \<noteq> files empty_world (''data'' @ ''/countries/'' @ ''ipv4/cn.zone'')
   \<and> ''ipv4/cn.zone'' \<in> {''ipv4/cn.zone'', ''ipv6/cn.zone''}
   \<and> map fst (countries (scan_all network_of_triple two_domains)) = [''cn'']"
proof -
  have h: "files (snd (extract_ip_networks (\<lambda>p. False) network_of_triple (\<lambda>xs. xs) ''db'' ''data''
             two_domains empty_world)) (''data'' @ ''/countries/'' @ ''ipv4/cn.zone'')
     \<noteq> files empty_world (''data'' @ ''/countries/'' @ ''ipv4/cn.zone'')"
    by (simp add: output_eval scan_two_domains empty_world_def str_net_ab ljust_one)
  have k: "map fst (countries (scan_all network_of_triple two_domains)) = [''cn'']"
    by (simp add: scan_two_domains)
  show ?thesis
    using h k only_cn_country_files [where ip_network = network_of_triple and reader = two_domains
        and fails = "\<lambda>p. False" and order = "\<lambda>xs. xs" and db_file = "''db''"
        and data_dir = "''data''" and w = empty_world and rest = "''ipv4/cn.zone''"]
    by blast
qed

section \<open>The aggregated file\<close>

lemma table_not_aggregated:
  "\<forall>s \<in> set (map domain AS_DOMAINS). lower s \<noteq> ''aggregated''"
  by (simp add: AS_DOMAINS_def AsDomain_default_def AsDomain_by_name_def lower_def lower_char_ascii)

lemma AS_DOMAIN_KV_dom: "AS_DOMAIN_KV s = Some obj \<Longrightarrow> s \<in> set (map domain AS_DOMAINS)"
proof -
  assume "AS_DOMAIN_KV s = Some obj"
  then have "(s, obj) \<in> set (rev (map (\<lambda>v. (domain v, v)) AS_DOMAINS))"
    unfolding AS_DOMAIN_KV_def by (rule map_of_SomeD)
  then show ?thesis by auto
qed

lemma is_filter_domain_True:
  assumes "is_filter_domain ip = Inr True"
  shows "\<exists>s obj. as_domain ip = PStr s \<and> AS_DOMAIN_KV s = Some obj"
proof (cases "as_domain ip")
  case (PStr s)
  then show ?thesis
    using assms by (auto simp: is_filter_domain_def split: if_splits option.splits)
qed (use assms in \<open>auto simp: is_filter_domain_def split: if_splits\<close>)

lemma group_add_distinct:
  "distinct (map fst g) \<Longrightarrow> distinct (map fst (group_add g key ipv net))"
  by (auto simp: group_add_keys)

lemma group_add_key_set:
  "fst ` set (group_add g key ipv net) = insert key (fst ` set g)"
proof -
  have "set (map fst (group_add g key ipv net)) = insert key (set (map fst g))"
    by (simp only: group_add_keys) auto
  then show ?thesis by simp
qed

lemma observe_domains_ok:
  assumes "domains_ok st"
  shows "domains_ok (fst (observe f st kr))"
proof -
  have step: "domains_ok (st'\<lparr>domains := group_add (domains st') d ipv net\<rparr>)"
    if a: "domains_ok st'" and b: "is_filter_domain ip = Inr True"
      and c: "str_lower (as_domain ip) = Inr d"
    for st' ip d ipv net
  proof -
    obtain s obj where s: "as_domain ip = PStr s" "AS_DOMAIN_KV s = Some obj"
      using is_filter_domain_True [OF b] by blast
    then have "d = lower s" using c by simp
    moreover have "lower s \<noteq> ''aggregated''"
      using table_not_aggregated AS_DOMAIN_KV_dom [OF s(2)] by (rule bspec)
    ultimately have "d \<noteq> ''aggregated''"
      by (simp only: not_False_eq_True)
    then show ?thesis
      using a by (simp add: domains_ok_def group_add_distinct group_add_key_set)
  qed
  have cs: "domains_ok (st\<lparr>countries := x\<rparr>)" for x
    using assms by (simp add: domains_ok_def)
  show ?thesis
    using assms cs step [OF cs]
    by (auto simp: observe_def Let_def split: sum.splits bool.splits)
qed

lemma scan_domains_ok: "domains_ok st \<Longrightarrow> domains_ok (scan f reader st)"
proof (induction reader arbitrary: st)
  case Nil
  then show ?case by (simp add: scan_def)
next
  case (Cons kr reader)
  have "scan f (kr # reader) st = scan f reader (fst (observe f st kr))"
    by (simp add: scan_def)
  then show ?case
    using Cons.IH [OF observe_domains_ok [OF Cons.prems]] by simp
qed

lemma scan_all_domains_ok: "domains_ok (scan_all f reader)"
  unfolding scan_all_def by (rule scan_domains_ok) (simp add: domains_ok_def)

lemma zone_path_inj: "zone_path dir kind ver d = zone_path dir kind ver d' \<longleftrightarrow> d = d'"
  by (simp add: zone_path_def)

lemma visited_keys_Cons:
  "visited_keys ver ((d, inner) # g) =
     (if map_of inner ver = None then visited_keys ver g else d # visited_keys ver g)"
  by (simp add: visited_keys_def)

lemma write_domains_content:
  assumes "write_domains fails order dir ver g (w, af) = (None, w', af')"
      and "distinct (map fst g)"
  shows "af' = af @ concat (map (\<lambda>d. file_text w' (zone_path dir ''domains'' ver d))
                          (visited_keys ver g))
       \<and> (\<forall>d \<in> set (visited_keys ver g). files w' (zone_path dir ''domains'' ver d) \<noteq> None)"
  using assms
proof (induction g arbitrary: w af)
  case Nil
  then show ?case by (simp add: visited_keys_def)
next
  case (Cons a g)
  obtain d inner where a: "a = (d, inner)" by (cases a)
  have dg: "distinct (map fst g)" and dn: "d \<notin> fst ` set g"
    using Cons.prems(2) a by auto
  show ?case
  proof (cases "map_of inner ver")
    case None
    then have "write_domains fails order dir ver g (w, af) = (None, w', af')"
      using Cons.prems(1) a by simp
    from Cons.IH [OF this dg] show ?thesis
      using None a by (simp add: visited_keys_Cons)
  next
    case (Some nets)
    let ?p = "zone_path dir ''domains'' ver d"
    obtain gen where gen: "collapse_addresses_gen (order nets) = Inr gen"
      using Cons.prems(1) a Some by (cases "collapse_addresses_gen (order nets)") auto
    obtain r1 w1 where s: "save_zone_file_iter fails ?p gen w = (r1, w1)"
      by (cases "save_zone_file_iter fails ?p gen w")
    obtain x where r1: "r1 = Inr x"
      using Cons.prems(1) a Some gen s by (cases r1) auto
    obtain content where c: "files w1 ?p = Some content"
      using Cons.prems(1) a Some gen s r1 by (cases "files w1 ?p") auto
    have rec: "write_domains fails order dir ver g (w1, af @ content) = (None, w', af')"
      using Cons.prems(1) a Some gen s r1 c by simp
    have "\<forall>d' \<in> fst ` set g. ?p \<noteq> zone_path dir ''domains'' ver d'"
      using dn by (auto simp: zone_path_inj)
    from write_domains_frame [OF rec this] have keep: "files w' ?p = Some content"
      using c by simp
    then have ft: "file_text w' ?p = content"
      by (simp add: file_text_def)
    from Cons.IH [OF rec dg] show ?thesis
      using Some a ft keep by (simp add: visited_keys_Cons)
  qed
qed

lemma aggregated_path_neq: "zone_path dir ''domains'' ver d = aggregated_path dir ver \<longleftrightarrow> d = ''aggregated''"
  by (simp add: zone_path_def aggregated_path_def)

lemma write_version_content:
  assumes "write_version fails order dir st ver w = (None, w')"
      and "domains_ok st"
  shows "files w' (aggregated_path dir ver) =
           Some (concat (map (\<lambda>d. file_text w' (zone_path dir ''domains'' ver d))
                          (visited_keys ver (domains st))))
       \<and> (\<forall>d \<in> set (visited_keys ver (domains st)).
             files w' (zone_path dir ''domains'' ver d) \<noteq> None)"
proof -
  let ?agg = "aggregated_path dir ver"
  obtain w1 where c: "write_countries fails order dir ver (countries st) w = (None, w1)"
    using assms(1)
    by (cases "write_countries fails order dir ver (countries st) w")
      (auto simp: write_version_def split: option.splits)
  have nf: "\<not> fails ?agg"
    using assms(1) c by (auto simp: write_version_def split: if_splits)
  obtain r2 w2 af where d: "write_domains fails order dir ver (domains st)
      (w1\<lparr>files := (files w1)(?agg \<mapsto> [])\<rparr>, []) = (r2, w2, af)"
    by (cases "write_domains fails order dir ver (domains st)
      (w1\<lparr>files := (files w1)(?agg \<mapsto> [])\<rparr>, [])")
  have r2: "r2 = None" and w': "w' = w2\<lparr>files := (files w2)(?agg \<mapsto> af)\<rparr>"
    using assms(1) c nf d by (auto simp: write_version_def)
  have vis: "d \<noteq> ''aggregated''" if "d \<in> set (visited_keys ver (domains st))" for d
  proof -
    have "d \<in> fst ` set (domains st)"
      using that by (auto simp: visited_keys_def)
    then show ?thesis
      using assms(2) unfolding domains_ok_def by blast
  qed
  have same: "files w' (zone_path dir ''domains'' ver d) = files w2 (zone_path dir ''domains'' ver d)"
    if "d \<in> set (visited_keys ver (domains st))" for d
    using vis [OF that] by (simp add: w' aggregated_path_neq)
  have dist: "distinct (map fst (domains st))"
    using assms(2) by (simp add: domains_ok_def)
  from write_domains_content [OF d [unfolded r2] dist]
  have af: "af = concat (map (\<lambda>d. file_text w2 (zone_path dir ''domains'' ver d))
                          (visited_keys ver (domains st)))"
    and ex: "\<forall>d \<in> set (visited_keys ver (domains st)). files w2 (zone_path dir ''domains'' ver d) \<noteq> None"
    by simp_all
  have m: "map (\<lambda>d. file_text w2 (zone_path dir ''domains'' ver d)) (visited_keys ver (domains st))
      = map (\<lambda>d. file_text w' (zone_path dir ''domains'' ver d)) (visited_keys ver (domains st))"
    using same by (intro map_cong) (auto simp: file_text_def)
  have agg: "files w' ?agg = Some af"
    by (simp add: w')
  have ex': "\<forall>d \<in> set (visited_keys ver (domains st)).
      files w' (zone_path dir ''domains'' ver d) \<noteq> None"
    using ex same by (simp del: fun_upd_apply)
  have "files w' ?agg = Some (concat (map (\<lambda>d. file_text w' (zone_path dir ''domains'' ver d))
      (visited_keys ver (domains st))))"
    unfolding agg af m by (rule refl)
  then show ?thesis
    using ex' by (rule conjI)
qed

lemma ipv4_paths_untouched_by_ipv6:
  "aggregated_path dir ''ipv4'' \<noteq> zone_path dir ''countries'' ''ipv6'' c"
  "aggregated_path dir ''ipv4'' \<noteq> zone_path dir ''domains'' ''ipv6'' d"
  "aggregated_path dir ''ipv4'' \<noteq> aggregated_path dir ''ipv6''"
  "zone_path dir ''domains'' ''ipv4'' k \<noteq> zone_path dir ''countries'' ''ipv6'' c"
  "zone_path dir ''domains'' ''ipv4'' k \<noteq> zone_path dir ''domains'' ''ipv6'' d"
  "zone_path dir ''domains'' ''ipv4'' k \<noteq> aggregated_path dir ''ipv6''"
  by (simp_all add: zone_path_def aggregated_path_def)

text \<open>
  C7: after a run that ends without an error, the aggregated file of each version holds
  the contents of the zone files of the domains that have networks of that version,
  one after the other in the order of the domain table, and each of those zone files
  exists. What the aggregated file held before the run does not enter.
\<close>

theorem aggregated_is_concatenation:
  assumes run: "extract_ip_networks fails ip_network order db_file data_dir reader w = (None, w')"
      and ver: "ver \<in> {''ipv4'', ''ipv6''}"
  shows "files w' (aggregated_path data_dir ver) =
           Some (concat (map (\<lambda>d. file_text w' (zone_path data_dir ''domains'' ver d))
                          (visited_keys ver (domains (scan_all ip_network reader)))))
       \<and> (\<forall>d \<in> set (visited_keys ver (domains (scan_all ip_network reader))).
             files w' (zone_path data_dir ''domains'' ver d) \<noteq> None)"
proof -
  let ?st = "scan_all ip_network reader"
  let ?w0 = "w\<lparr>log := log w @ [''Extracting IP networks from '' @ db_file]\<rparr>"
  have ok: "domains_ok ?st"
    by (rule scan_all_domains_ok)
  obtain r1 w1 where v4: "write_version fails order data_dir ?st ''ipv4'' ?w0 = (r1, w1)"
    by (cases "write_version fails order data_dir ?st ''ipv4'' ?w0")
  have r1: "r1 = None"
    using run v4 by (cases r1) (auto simp: extract_ip_networks_def)
  have v6: "write_version fails order data_dir ?st ''ipv6'' w1 = (None, w')"
    using run v4 r1
    by (cases "write_version fails order data_dir ?st ''ipv6'' w1")
      (auto simp: extract_ip_networks_def split: option.splits)
  show ?thesis
  proof (cases "ver = ''ipv6''")
    case True
    then show ?thesis
      using write_version_content [OF v6 ok] by simp
  next
    case False
    then have v: "ver = ''ipv4''" using ver by simp
    let ?vis = "visited_keys ''ipv4'' (domains ?st)"
    from write_version_content [OF v4 [unfolded r1] ok]
    have a1: "files w1 (aggregated_path data_dir ''ipv4'') =
           Some (concat (map (\<lambda>d. file_text w1 (zone_path data_dir ''domains'' ''ipv4'' d)) ?vis))"
      and e1: "\<forall>d \<in> set ?vis. files w1 (zone_path data_dir ''domains'' ''ipv4'' d) \<noteq> None"
      by simp_all
    have fa: "files w' (aggregated_path data_dir ''ipv4'') = files w1 (aggregated_path data_dir ''ipv4'')"
      by (rule write_version_frame [OF v6]) (simp_all add: ipv4_paths_untouched_by_ipv6)
    have fz: "files w' (zone_path data_dir ''domains'' ''ipv4'' d)
        = files w1 (zone_path data_dir ''domains'' ''ipv4'' d)" for d
      by (rule write_version_frame [OF v6]) (simp_all add: ipv4_paths_untouched_by_ipv6)
    have m: "map (\<lambda>d. file_text w1 (zone_path data_dir ''domains'' ''ipv4'' d)) ?vis
        = map (\<lambda>d. file_text w' (zone_path data_dir ''domains'' ''ipv4'' d)) ?vis"
      by (simp add: file_text_def fz)
    have "files w' (aggregated_path data_dir ''ipv4'') =
           Some (concat (map (\<lambda>d. file_text w' (zone_path data_dir ''domains'' ''ipv4'' d)) ?vis))"
      unfolding fa a1 m by (rule refl)
    moreover have "\<forall>d \<in> set ?vis. files w' (zone_path data_dir ''domains'' ''ipv4'' d) \<noteq> None"
      using e1 by (simp add: fz)
    ultimately show ?thesis
      unfolding v by (rule conjI)
  qed
qed


theorem aggregated_is_concatenation_witness:
  "extract_ip_networks (\<lambda>p. False) network_of_triple (\<lambda>xs. xs) ''db'' ''data'' two_domains world_old
     = (None, snd (extract_ip_networks (\<lambda>p. False) network_of_triple (\<lambda>xs. xs) ''db'' ''data''
                     two_domains world_old))
   \<and> ''ipv4'' \<in> {''ipv4'', ''ipv6''}
   \<and> visited_keys ''ipv4'' (domains (scan_all network_of_triple two_domains)) = [''qq.com'', ''baidu.com'']
   \<and> files (snd (extract_ip_networks (\<lambda>p. False) network_of_triple (\<lambda>xs. xs) ''db'' ''data''
                   two_domains world_old)) (aggregated_path ''data'' ''ipv4'')
       = Some (concat (map (\<lambda>d. file_text
                 (snd (extract_ip_networks (\<lambda>p. False) network_of_triple (\<lambda>xs. xs) ''db'' ''data''
                         two_domains world_old)) (zone_path ''data'' ''domains'' ''ipv4'' d))
               [''qq.com'', ''baidu.com'']))
   \<and> files (snd (extract_ip_networks (\<lambda>p. False) network_of_triple (\<lambda>xs. xs) ''db'' ''data''
                   two_domains world_old)) (aggregated_path ''data'' ''ipv4'')
       = Some (''1.0.0.0/24'' @ [CHR 0x0A] @ ''1.0.1.0/24'' @ [CHR 0x0A])"
proof -
  let ?run = "extract_ip_networks (\<lambda>p. False) network_of_triple (\<lambda>xs. xs) ''db'' ''data''
                two_domains world_old"
  have n: "fst ?run = None"
    by (simp add: output_eval scan_two_domains world_old_def str_net_ab ljust_one)
  have h: "?run = (None, snd ?run)"
    using n by (metis prod.collapse)
  have v: "''ipv4'' \<in> {''ipv4'', ''ipv6''}"
    by simp
  have k: "visited_keys ''ipv4'' (domains (scan_all network_of_triple two_domains))
      = [''qq.com'', ''baidu.com'']"
    by (simp add: visited_keys_def scan_two_domains)
  have c: "files (snd ?run) (aggregated_path ''data'' ''ipv4'')
      = Some (''1.0.0.0/24'' @ [CHR 0x0A] @ ''1.0.1.0/24'' @ [CHR 0x0A])"
    by (simp add: output_eval scan_two_domains world_old_def str_net_ab ljust_one)
  show ?thesis
    using h v k c aggregated_is_concatenation [where fails = "\<lambda>p. False"
        and ip_network = network_of_triple and order = "\<lambda>xs. xs" and db_file = "''db''"
        and data_dir = "''data''" and reader = two_domains and w = world_old
        and w' = "snd ?run" and ver = "''ipv4''", OF h v]
    by (simp only: k)
qed

section \<open>Networks as aligned blocks of addresses\<close>

lemma div_block_iff:
  fixes x q :: nat
  shows "x div 2 ^ h = q \<longleftrightarrow> q * 2 ^ h \<le> x \<and> x < q * 2 ^ h + 2 ^ h"
proof -
  have pos: "(0::nat) < 2 ^ h" by simp
  show ?thesis
  proof
    assume "x div 2 ^ h = q"
    then have "x = q * 2 ^ h + x mod 2 ^ h"
      by (metis div_mult_mod_eq)
    moreover have "x mod 2 ^ h < 2 ^ h" using pos by simp
    ultimately show "q * 2 ^ h \<le> x \<and> x < q * 2 ^ h + 2 ^ h" by linarith
  next
    assume a: "q * 2 ^ h \<le> x \<and> x < q * 2 ^ h + 2 ^ h"
    then have "x < Suc q * 2 ^ h" by simp
    with a show "x div 2 ^ h = q"
      by (intro div_nat_eqI) (simp_all add: mult.commute)
  qed
qed

lemma net_addrs_iff:
  assumes "valid_net n"
  shows "x \<in> net_addrs n \<longleftrightarrow> x div 2 ^ host_bits n = network_address n div 2 ^ host_bits n"
proof -
  obtain q where q: "network_address n = q * 2 ^ host_bits n"
    using assms by (auto simp: valid_net_def elim: dvdE simp: mult.commute)
  have d: "network_address n div 2 ^ host_bits n = q"
    by (simp add: q)
  have iv: "x \<in> net_addrs n \<longleftrightarrow> q * 2 ^ host_bits n \<le> x \<and> x < q * 2 ^ host_bits n + 2 ^ host_bits n"
  proof -
    define k where "k = (2::nat) ^ host_bits n"
    have kp: "0 < k" by (simp add: k_def)
    have "x \<in> net_addrs n \<longleftrightarrow> q * k \<le> x \<and> x \<le> q * k + (k - 1)"
      by (simp add: net_addrs_def broadcast_address_def hostmask_def q k_def)
    also have "\<dots> \<longleftrightarrow> q * k \<le> x \<and> x < q * k + k"
      using kp by arith
    finally show ?thesis by (simp add: k_def)
  qed
  have m: "x \<in> net_addrs n \<longleftrightarrow> x div 2 ^ host_bits n = q"
    unfolding div_block_iff by (rule iv)
  show ?thesis
    unfolding d by (rule m)
qed

lemma base_in_net: "network_address n \<in> net_addrs n"
  by (simp add: net_addrs_def broadcast_address_def)

lemma finite_net_addrs: "finite (net_addrs n)"
  by (simp add: net_addrs_def)

lemma card_net_addrs: "card (net_addrs n) = 2 ^ host_bits n"
  by (simp add: net_addrs_def broadcast_address_def hostmask_def)

lemma div_coarser:
  fixes x y :: nat
  assumes "x div 2 ^ h = y div 2 ^ h" and "h \<le> k"
  shows "x div 2 ^ k = y div 2 ^ k"
proof -
  have "x div 2 ^ k = x div 2 ^ h div 2 ^ (k - h)" for x :: nat
    using assms(2) by (simp add: div_exp_eq)
  then show ?thesis using assms(1) by simp
qed

lemma laminar:
  assumes "valid_net a" "valid_net b" "host_bits a \<le> host_bits b"
  shows "net_addrs a \<subseteq> net_addrs b \<or> net_addrs a \<inter> net_addrs b = {}"
proof (cases "net_addrs a \<inter> net_addrs b = {}")
  case False
  then obtain x where x: "x \<in> net_addrs a" "x \<in> net_addrs b" by blast
  have "y \<in> net_addrs b" if "y \<in> net_addrs a" for y
  proof -
    have "y div 2 ^ host_bits a = x div 2 ^ host_bits a"
      using that x(1) assms(1) by (simp add: net_addrs_iff)
    then have "y div 2 ^ host_bits b = x div 2 ^ host_bits b"
      using assms(3) by (rule div_coarser)
    then show ?thesis
      using x(2) assms(2) by (simp add: net_addrs_iff)
  qed
  then show ?thesis by blast
qed simp

end
